theory Spec2Isabelle
  imports Complex_Main "HOL-Library.Word"
begin

unbundle bit_operations_syntax

section \<open>Data model\<close>

text \<open>
  GLSL and glm vectors. \<open>vec3\<close> carries the shader's \<open>float\<close> components, read here as
  real numbers; \<open>ivec3\<close> carries voxel coordinates.
\<close>

datatype 'a gvec3 = Vec3 (vx: 'a) (vy: 'a) (vz: 'a)

type_synonym vec3 = "real gvec3"
type_synonym ivec3 = "int gvec3"
type_synonym uint = "32 word"

text \<open>\<open>struct SPHParticleCompute\<close> of SPHComputeSystem.h, \<open>struct Particle\<close> of the shaders.\<close>

record Particle =
  position :: vec3
  density :: real
  velocity :: vec3
  pressure :: real

text \<open>Constants of \<open>namespace SPHConstants\<close> and of the shaders.\<close>

definition REST_DENSITY :: real where "REST_DENSITY = 998.27"
definition DT :: real where "DT = 0.0012"

text \<open>
  The members of \<open>class SPHComputeSystem\<close> that the simulation core reads or writes.
  The two GPU particle buffers are lists of records; \<open>currentBuffer\<close> selects one.
\<close>

record SPHComputeSystem =
  numParticles :: uint
  maxParticles :: uint
  currentBuffer :: nat
  particleBuffers :: "nat \<Rightarrow> Particle list"
  accumulatedTime :: real
  gravity :: vec3
  spherePosition :: vec3
  sphereImpulse :: vec3
  sphereRadius :: real
  sphereActive :: bool

section \<open>SPHComputeSystem::initialize: capacity\<close>

text \<open>
  \<open>uint32_t minParticles = std::max(numParticles, 50000u);
  maxParticles_ = ((minParticles + 511) / 512) * 512;\<close>
  in 32-bit unsigned arithmetic.
\<close>

definition initialize_maxParticles :: "uint \<Rightarrow> uint" where
  "initialize_maxParticles n =
     (let minParticles = max n 50000
      in ((minParticles + 511) div 512) * 512)"

section \<open>SPHComputeSystem::addParticles\<close>

text \<open>
  \<open>glNamedBufferSubData(buffer, offset, size, data)\<close> in units of particle records:
  a range that does not fit in the buffer is a GL error and writes nothing.
\<close>

definition bufferSubData :: "Particle list \<Rightarrow> nat \<Rightarrow> Particle list \<Rightarrow> Particle list" where
  "bufferSubData buf off data =
     (if off + length data \<le> length buf
      then take off buf @ data @ drop (off + length data) buf
      else buf)"

text \<open>The loop that builds one record per position/velocity pair.\<close>

definition makeParticles :: "vec3 list \<Rightarrow> vec3 list \<Rightarrow> Particle list" where
  "makeParticles finalPositions finalVelocities =
     map (\<lambda>i. \<lparr> position = finalPositions ! i, density = REST_DENSITY,
                velocity = finalVelocities ! i, pressure = 0 \<rparr>)
         [0 ..< length finalPositions]"

text \<open>
  The upload and the counter update that end \<open>addParticles\<close>.
  \<open>numParticles_ += static_cast<uint32_t>(finalPositions.size())\<close>.
\<close>

definition uploadParticles :: "vec3 list \<Rightarrow> vec3 list \<Rightarrow> SPHComputeSystem \<Rightarrow> SPHComputeSystem" where
  "uploadParticles finalPositions finalVelocities s =
     (let particles = makeParticles finalPositions finalVelocities;
          cur = currentBuffer s
      in s \<lparr> particleBuffers :=
                (particleBuffers s)
                  (cur := bufferSubData (particleBuffers s cur) (unat (numParticles s)) particles),
              numParticles := numParticles s + of_nat (length finalPositions) \<rparr>)"

text \<open>
  \<open>addParticles\<close>. The comparison \<open>numParticles_ + finalPositions.size() > maxParticles_\<close> is
  done in \<open>size_t\<close>, where it cannot wrap for a vector that fits in memory;
  \<open>maxToAdd = maxParticles_ - numParticles_\<close> is a 32-bit subtraction.
  \<open>std::vector::resize\<close> truncates, or pads with zero vectors when it grows.
\<close>

definition resize_vec :: "nat \<Rightarrow> vec3 list \<Rightarrow> vec3 list" where
  "resize_vec n xs = take n xs @ replicate (n - length xs) (Vec3 0 0 0)"

definition addParticles :: "vec3 list \<Rightarrow> vec3 list \<Rightarrow> SPHComputeSystem \<Rightarrow> SPHComputeSystem" where
  "addParticles positions velocities s =
     (if length positions \<noteq> length velocities then s
      else if unat (numParticles s) + length positions > unat (maxParticles s) then
        (let maxToAdd = unat (maxParticles s - numParticles s)
         in if maxToAdd = 0 then s
            else uploadParticles (resize_vec maxToAdd positions) (resize_vec maxToAdd velocities) s)
      else uploadParticles positions velocities s)"

section \<open>SPHComputeSystem::update\<close>

text \<open>
  \<open>accumulatedTime_\<close>, \<open>deltaTime\<close> and \<open>SPHConstants::DT = 0.0012f\<close> are \<open>float\<close>: every sum
  and difference of the loop is rounded to the nearest binary32 value, ties to the even
  significand. A finite binary32 value is \<open>m * 2\<^sup>e\<^sup>-\<^sup>2\<^sup>3\<close> with an integer \<open>m\<close> and
  \<open>-126 \<le> e \<le> 127\<close>; \<open>float32_exponent y\<close> is the \<open>e\<close> of the binade of \<open>y\<close> (\<open>-126\<close> for the
  subnormal range) and \<open>float32_round y\<close> the nearest value of that grid. Overflow to
  infinity is not part of the model: it is used below \<open>2\<^sup>1\<^sup>2\<^sup>7\<close> only.
\<close>

definition pow2 :: "int \<Rightarrow> real" where
  "pow2 e = (if 0 \<le> e then 2 ^ nat e else 1 / 2 ^ nat (- e))"

fun exponent_search :: "nat \<Rightarrow> int \<Rightarrow> real \<Rightarrow> int" where
  "exponent_search 0 e y = e"
| "exponent_search (Suc fuel) e y = (if pow2 e \<le> y then e else exponent_search fuel (e - 1) y)"

definition float32_exponent :: "real \<Rightarrow> int" where
  "float32_exponent y = exponent_search 253 127 \<bar>y\<bar>"

definition round_half_even :: "real \<Rightarrow> int" where
  "round_half_even z =
     (if z - of_int \<lfloor>z\<rfloor> < 1 / 2 then \<lfloor>z\<rfloor>
      else if z - of_int \<lfloor>z\<rfloor> > 1 / 2 then \<lfloor>z\<rfloor> + 1
      else if even \<lfloor>z\<rfloor> then \<lfloor>z\<rfloor> else \<lfloor>z\<rfloor> + 1)"

definition float32_round :: "real \<Rightarrow> real" where
  "float32_round y =
     of_int (round_half_even (y / pow2 (float32_exponent y - 23))) * pow2 (float32_exponent y - 23)"

definition fadd :: "real \<Rightarrow> real \<Rightarrow> real" where
  "fadd a b = float32_round (a + b)"

definition fsub :: "real \<Rightarrow> real \<Rightarrow> real" where
  "fsub a b = float32_round (a - b)"

text \<open>The constant \<open>0.0012f\<close>: the binary32 value nearest to 0.0012.\<close>

definition DT_float :: real where
  "DT_float = float32_round DT"

text \<open>
  \<open>update(deltaTime)\<close>. After the guard \<open>if (numParticles_ == 0) return;\<close> (the debug printing
  that follows it changes nothing) the function runs

  \<^verbatim>\<open>accumulatedTime_ += deltaTime;
  while (accumulatedTime_ >= SPHConstants::DT) { <clear grid, passes 1 to 6, swap>;
                                                 accumulatedTime_ -= SPHConstants::DT; }\<close>

  The body of the loop is the parameter \<open>substep\<close>; it does not touch the accumulator. Nothing
  bounds the number of rounds, so the loop is a partial function: the value \<open>None\<close> says that
  the call does not return.
\<close>

partial_function (option) update_loop :: "('s \<Rightarrow> 's) \<Rightarrow> real \<Rightarrow> 's \<Rightarrow> (real \<times> 's) option" where
  "update_loop substep acc s =
     (if acc \<ge> DT_float then update_loop substep (fsub acc DT_float) (substep s)
      else Some (acc, s))"

declare update_loop.simps [code]

definition update :: "('a SPHComputeSystem_scheme \<Rightarrow> 'a SPHComputeSystem_scheme) \<Rightarrow> real \<Rightarrow>
    'a SPHComputeSystem_scheme \<Rightarrow> 'a SPHComputeSystem_scheme option" where
  "update substep deltaTime s =
     (if numParticles s = 0 then Some s
      else map_option (\<lambda>(acc, s'). s' \<lparr> accumulatedTime := acc \<rparr>)
             (update_loop substep (fadd (accumulatedTime s) deltaTime) s))"

text \<open>
  To observe how often the body of the loop ran, the state is extended by a counter that
  the program does not have, and the body used in the examples only counts.
\<close>

record counted_system = SPHComputeSystem +
  substeps_run :: nat

definition count_substep :: "counted_system \<Rightarrow> counted_system" where
  "count_substep s = s \<lparr> substeps_run := substeps_run s + 1 \<rparr>"

text \<open>
  The state left by the constructor \<open>SPHComputeSystem::SPHComputeSystem()\<close>: no particles,
  no capacity, no buffers yet, an empty accumulator, default gravity, no impulse request.
\<close>

definition SPHComputeSystem_ctor :: SPHComputeSystem where
  "SPHComputeSystem_ctor =
     \<lparr> numParticles = 0, maxParticles = 0, currentBuffer = 0,
       particleBuffers = (\<lambda>_. []), accumulatedTime = 0,
       gravity = Vec3 0 (-9.81) 0,
       spherePosition = Vec3 0 0 0, sphereImpulse = Vec3 0 0 0,
       sphereRadius = 0, sphereActive = False \<rparr>"

text \<open>Small concrete states used to run the operations.\<close>

definition p0 :: Particle where
  "p0 = \<lparr> position = Vec3 0 0 0, density = 0, velocity = Vec3 0 0 0, pressure = 0 \<rparr>"

definition almost_full :: SPHComputeSystem where
  "almost_full = SPHComputeSystem_ctor \<lparr> numParticles := 3, maxParticles := 4,
                   particleBuffers := (\<lambda>_. [p0, p0, p0, p0]) \<rparr>"

definition idle :: counted_system where
  "idle = \<lparr> numParticles = 0, maxParticles = 0, currentBuffer = 0,
            particleBuffers = (\<lambda>_. []), accumulatedTime = 0,
            gravity = Vec3 0 (-9.81) 0,
            spherePosition = Vec3 0 0 0, sphereImpulse = Vec3 0 0 0,
            sphereRadius = 0, sphereActive = False, substeps_run = 0 \<rparr>"

definition running :: counted_system where
  "running = idle \<lparr> numParticles := 1 \<rparr>"

text \<open>A frame time of about 7.2 ms that is a binary32 value.\<close>

definition example_frame :: real where
  "example_frame = 7730941 / 2 ^ 30"

section \<open>Vector arithmetic of the shaders\<close>

text \<open>Componentwise sum and difference, as GLSL defines them on \<open>vec3\<close> and \<open>ivec3\<close>.\<close>

instantiation gvec3 :: (plus) plus
begin
definition plus_gvec3 :: "'a gvec3 \<Rightarrow> 'a gvec3 \<Rightarrow> 'a gvec3" where
  "plus_gvec3 a b = Vec3 (vx a + vx b) (vy a + vy b) (vz a + vz b)"
instance ..
end

instantiation gvec3 :: (minus) minus
begin
definition minus_gvec3 :: "'a gvec3 \<Rightarrow> 'a gvec3 \<Rightarrow> 'a gvec3" where
  "minus_gvec3 a b = Vec3 (vx a - vx b) (vy a - vy b) (vz a - vz b)"
instance ..
end

text \<open>\<open>v * k\<close> and \<open>v / k\<close> for a vector and a scalar, \<open>v + k\<close>, \<open>a * b\<close> componentwise.\<close>

definition vscale :: "vec3 \<Rightarrow> real \<Rightarrow> vec3" where
  "vscale v k = Vec3 (vx v * k) (vy v * k) (vz v * k)"

definition vdiv :: "vec3 \<Rightarrow> real \<Rightarrow> vec3" where
  "vdiv v k = Vec3 (vx v / k) (vy v / k) (vz v / k)"

definition vadds :: "vec3 \<Rightarrow> real \<Rightarrow> vec3" where
  "vadds v k = Vec3 (vx v + k) (vy v + k) (vz v + k)"

definition vmul :: "vec3 \<Rightarrow> vec3 \<Rightarrow> vec3" where
  "vmul a b = Vec3 (vx a * vx b) (vy a * vy b) (vz a * vz b)"

text \<open>GLSL \<open>length\<close>.\<close>

definition vlength :: "vec3 \<Rightarrow> real" where
  "vlength v = sqrt (vx v * vx v + vy v * vy v + vz v * vz v)"

text \<open>
  The conversion \<open>ivec3(v)\<close> of a float vector: each component is truncated towards zero.
\<close>

definition trunc :: "real \<Rightarrow> int" where
  "trunc r = (if 0 \<le> r then \<lfloor>r\<rfloor> else \<lceil>r\<rceil>)"

definition to_ivec3 :: "vec3 \<Rightarrow> ivec3" where
  "to_ivec3 v = Vec3 (trunc (vx v)) (trunc (vy v)) (trunc (vz v))"

section \<open>sph_step1.cs: integration and walls\<close>

record Step1Uniforms =
  uDT :: real
  uGravity :: vec3
  uGridOrigin :: vec3
  uGridSize :: vec3
  uInvCellSize :: vec3
  uSpherePosition :: vec3
  uSphereImpulse :: vec3
  uSphereRadius :: real
  uSphereActive :: int

definition SAFE_BOUNDS :: real where "SAFE_BOUNDS = 0.5"
definition wallDamping :: real where "wallDamping = 0.5"

text \<open>
  Gravity and the sphere impulse: the value of \<open>newVelo\<close> when the position is integrated.
  \<open>impulseStrength\<close> is the shader's local of that name after its two assignments
  (\<open>1.0 - distToSphere / uSphereRadius\<close>, then squared). The unit vector \<open>sphereDir\<close> that
  the shader also computes is never used.
\<close>

definition impulseStrength :: "real \<Rightarrow> real \<Rightarrow> real" where
  "impulseStrength radius distToSphere =
     (let strength = 1 - distToSphere / radius in strength * strength)"

definition step1_newVelo :: "Step1Uniforms \<Rightarrow> Particle \<Rightarrow> vec3" where
  "step1_newVelo u particle =
     (let newVelo = velocity particle + vscale (uGravity u) (uDT u)
      in if uSphereActive u \<noteq> 0 then
           (let toSphere = uSpherePosition u - position particle;
                distToSphere = vlength toSphere
            in if distToSphere \<le> uSphereRadius u \<and> distToSphere > 0.001 then
                 newVelo + vscale (vscale (uSphereImpulse u)
                                     (impulseStrength (uSphereRadius u) distToSphere)) (uDT u)
               else newVelo)
         else newVelo)"

text \<open>
  The two wall tests of one axis, in the shader's order, on that axis of
  \<open>(newVelo, newPos)\<close>; \<open>lo\<close> and \<open>hi\<close> are that axis of \<open>boundsL\<close> and \<open>boundsH\<close>.
\<close>

definition wall_axis :: "real \<Rightarrow> real \<Rightarrow> real \<times> real \<Rightarrow> real \<times> real" where
  "wall_axis lo hi vp =
     (let vp1 = (if snd vp < lo then (fst vp * (- wallDamping), lo) else vp)
      in if snd vp1 > hi then (fst vp1 * (- wallDamping), hi) else vp1)"

definition boundsL :: "Step1Uniforms \<Rightarrow> vec3" where
  "boundsL u = vadds (uGridOrigin u) SAFE_BOUNDS"

definition boundsH :: "Step1Uniforms \<Rightarrow> vec3" where
  "boundsH u = vadds (uGridOrigin u + uGridSize u) (- SAFE_BOUNDS)"

text \<open>The position before the wall tests.\<close>

definition step1_newPos :: "Step1Uniforms \<Rightarrow> Particle \<Rightarrow> vec3" where
  "step1_newPos u particle = position particle + vscale (step1_newVelo u particle) (uDT u)"

text \<open>The record that invocation \<open>particleId\<close> writes back to \<open>particles[particleId]\<close>.\<close>

definition step1_integrate :: "Step1Uniforms \<Rightarrow> Particle \<Rightarrow> Particle" where
  "step1_integrate u particle =
     (let newVelo = step1_newVelo u particle;
          newPos = step1_newPos u particle;
          x = wall_axis (vx (boundsL u)) (vx (boundsH u)) (vx newVelo, vx newPos);
          y = wall_axis (vy (boundsL u)) (vy (boundsH u)) (vy newVelo, vy newPos);
          z = wall_axis (vz (boundsL u)) (vz (boundsH u)) (vz newVelo, vz newPos)
      in particle \<lparr> velocity := Vec3 (fst x) (fst y) (fst z),
                    position := Vec3 (snd x) (snd y) (snd z) \<rparr>)"

text \<open>\<open>ivec3(uInvCellSize * (pos - uGridOrigin))\<close>, the voxel of a position (steps 1, 3, 5, 6).\<close>

definition voxelCoord :: "vec3 \<Rightarrow> vec3 \<Rightarrow> vec3 \<Rightarrow> ivec3" where
  "voxelCoord invCellSize gridOrigin pos = to_ivec3 (vmul invCellSize (pos - gridOrigin))"

text \<open>Uniforms and particles for the examples: a box of side 10 at the origin, no gravity.\<close>

definition box10 :: Step1Uniforms where
  "box10 = \<lparr> uDT = DT, uGravity = Vec3 0 0 0, uGridOrigin = Vec3 0 0 0,
             uGridSize = Vec3 10 10 10, uInvCellSize = Vec3 5 5 5,
             uSpherePosition = Vec3 5 5 5, uSphereImpulse = Vec3 0 10 0,
             uSphereRadius = 2, uSphereActive = 1 \<rparr>"

definition at_rest :: "vec3 \<Rightarrow> Particle" where
  "at_rest pos = \<lparr> position = pos, density = REST_DENSITY, velocity = Vec3 0 0 0, pressure = 0 \<rparr>"

definition moving :: "vec3 \<Rightarrow> vec3 \<Rightarrow> Particle" where
  "moving pos vel = \<lparr> position = pos, density = REST_DENSITY, velocity = vel, pressure = 0 \<rparr>"

definition calm10 :: Step1Uniforms where
  "calm10 = box10 \<lparr> uSphereActive := 0 \<rparr>"

section \<open>The grid image\<close>

text \<open>
  The grid is a 3D image of one 32-bit word per voxel (\<open>uimage3D\<close>, format \<open>r32ui\<close>).
  A load outside the image returns 0, a store or an atomic outside the image is dropped and
  the atomic returns 0, as OpenGL defines image accesses out of bounds.
\<close>

record Image3D =
  imageSize :: ivec3
  texels :: "ivec3 \<Rightarrow> uint"

definition in_image :: "Image3D \<Rightarrow> ivec3 \<Rightarrow> bool" where
  "in_image g c \<longleftrightarrow>
     0 \<le> vx c \<and> vx c < vx (imageSize g) \<and>
     0 \<le> vy c \<and> vy c < vy (imageSize g) \<and>
     0 \<le> vz c \<and> vz c < vz (imageSize g)"

definition imageLoad :: "Image3D \<Rightarrow> ivec3 \<Rightarrow> uint" where
  "imageLoad g c = (if in_image g c then texels g c else 0)"

definition imageStore :: "Image3D \<Rightarrow> ivec3 \<Rightarrow> uint \<Rightarrow> Image3D" where
  "imageStore g c v = (if in_image g c then g \<lparr> texels := (texels g)(c := v) \<rparr> else g)"

definition imageAtomicAdd :: "Image3D \<Rightarrow> ivec3 \<Rightarrow> uint \<Rightarrow> uint \<times> Image3D" where
  "imageAtomicAdd g c v = (imageLoad g c, imageStore g c (imageLoad g c + v))"

text \<open>The two fields of a cell word: \<open>voxelValue >> 8\<close> and \<open>voxelValue & 0xFF\<close>.\<close>

definition cell_offset :: "uint \<Rightarrow> nat" where
  "cell_offset voxelValue = unat (drop_bit 8 voxelValue)"

definition cell_count :: "uint \<Rightarrow> nat" where
  "cell_count voxelValue = unat (voxelValue AND 0xFF)"

text \<open>
  A read of \<open>particles[i]\<close> from a shader storage buffer; past the end of the buffer a
  robust read returns zeros.
\<close>

definition zero_particle :: Particle where
  "zero_particle = \<lparr> position = Vec3 0 0 0, density = 0, velocity = Vec3 0 0 0, pressure = 0 \<rparr>"

definition ssbo_read :: "Particle list \<Rightarrow> nat \<Rightarrow> Particle" where
  "ssbo_read particles i = (if i < length particles then particles ! i else zero_particle)"

section \<open>The neighbour loop of sph_step5.cs and sph_step6.cs\<close>

definition NEIGHBORHOOD_LUT :: "ivec3 list" where
  "NEIGHBORHOOD_LUT =
     [Vec3 (-1) (-1) (-1), Vec3 0 (-1) (-1), Vec3 1 (-1) (-1),
      Vec3 (-1) (-1) 0, Vec3 0 (-1) 0, Vec3 1 (-1) 0,
      Vec3 (-1) (-1) 1, Vec3 0 (-1) 1, Vec3 1 (-1) 1,
      Vec3 (-1) 0 (-1), Vec3 0 0 (-1), Vec3 1 0 (-1),
      Vec3 (-1) 0 0, Vec3 0 0 0, Vec3 1 0 0,
      Vec3 (-1) 0 1, Vec3 0 0 1, Vec3 1 0 1,
      Vec3 (-1) 1 (-1), Vec3 0 1 (-1), Vec3 1 1 (-1),
      Vec3 (-1) 1 0, Vec3 0 1 0, Vec3 1 1 0,
      Vec3 (-1) 1 1, Vec3 0 1 1, Vec3 1 1 1]"

text \<open>\<open>any(lessThan(newVoxelId, ivec3(0))) || any(greaterThanEqual(newVoxelId, uGridRes))\<close>\<close>

definition outside_grid :: "ivec3 \<Rightarrow> ivec3 \<Rightarrow> bool" where
  "outside_grid gridRes v \<longleftrightarrow>
     (vx v < 0 \<or> vy v < 0 \<or> vz v < 0) \<or>
     (vx v \<ge> vx gridRes \<or> vy v \<ge> vy gridRes \<or> vz v \<ge> vz gridRes)"

text \<open>
  The loop \<open>while (voxelCount < 27 || voxelParticleCount > 0)\<close>, which both shaders
  contain word for word. \<open>body otherParticleId\<close> is what the shader does, after
  \<open>otherParticleId = voxelParticleOffset + voxelParticleCount\<close>, to its accumulators.
  The three unsigned locals stay below \<open>2^32\<close> (at most 27, 255 and \<open>2^24 - 1\<close>), so they are
  natural numbers here.
\<close>

function stencil_walk ::
  "Image3D \<Rightarrow> ivec3 \<Rightarrow> ivec3 \<Rightarrow> (nat \<Rightarrow> 'a \<Rightarrow> 'a) \<Rightarrow> nat \<Rightarrow> nat \<Rightarrow> nat \<Rightarrow> 'a \<Rightarrow> 'a" where
  "stencil_walk grid gridRes voxelId body voxelCount voxelParticleCount voxelParticleOffset acc =
     (if voxelCount < 27 \<or> voxelParticleCount > 0 then
        (if voxelParticleCount = 0 then
           (let newVoxelId = voxelId + NEIGHBORHOOD_LUT ! voxelCount
            in if outside_grid gridRes newVoxelId then
                 stencil_walk grid gridRes voxelId body (voxelCount + 1)
                   voxelParticleCount voxelParticleOffset acc
               else if cell_count (imageLoad grid newVoxelId) = 0 then
                 stencil_walk grid gridRes voxelId body (voxelCount + 1)
                   0 (cell_offset (imageLoad grid newVoxelId)) acc
               else
                 stencil_walk grid gridRes voxelId body (voxelCount + 1)
                   (cell_count (imageLoad grid newVoxelId) - 1)
                   (cell_offset (imageLoad grid newVoxelId))
                   (body (cell_offset (imageLoad grid newVoxelId)
                          + (cell_count (imageLoad grid newVoxelId) - 1)) acc))
         else
           stencil_walk grid gridRes voxelId body voxelCount
             (voxelParticleCount - 1) voxelParticleOffset
             (body (voxelParticleOffset + (voxelParticleCount - 1)) acc))
      else acc)"
  by pat_completeness auto
termination
proof (relation "measure (\<lambda>(grid, gridRes, voxelId, body, voxelCount, voxelParticleCount,
                              voxelParticleOffset, acc).
                            (27 - voxelCount) * 256 + voxelParticleCount)", goal_cases)
  case 1
  show ?case by simp
next
  case (2 grid gridRes voxelId body voxelCount voxelParticleCount voxelParticleOffset acc)
  then show ?case by auto
next
  case (3 grid gridRes voxelId body voxelCount voxelParticleCount voxelParticleOffset acc)
  then show ?case by auto
next
  case (4 grid gridRes voxelId body voxelCount voxelParticleCount voxelParticleOffset acc x)
  have "unat (imageLoad grid x AND 0xFF) \<le> unat (0xFF :: uint)"
    by (rule word_and_le1 [THEN word_le_nat_alt [THEN iffD1]])
  then have "cell_count (imageLoad grid x) \<le> 255" by (simp add: cell_count_def)
  with 4 show ?case by auto
next
  case (5 grid gridRes voxelId body voxelCount voxelParticleCount voxelParticleOffset acc)
  then show ?case by auto
qed

declare stencil_walk.simps [simp del]

text \<open>The particle indices the loop visits, in order: the loop run with a body that records them.\<close>

definition candidates :: "Image3D \<Rightarrow> ivec3 \<Rightarrow> ivec3 \<Rightarrow> nat list" where
  "candidates grid gridRes voxelId =
     stencil_walk grid gridRes voxelId (\<lambda>otherParticleId visited. visited @ [otherParticleId]) 0 0 0 []"



section \<open>sph_step5.cs: density and pressure\<close>

definition MASS :: real where "MASS = 0.02"
definition KERNEL_RADIUS :: real where "KERNEL_RADIUS = 0.1828"

record GridUniforms =
  gInvCellSize :: vec3
  gGridOrigin :: vec3
  gGridRes :: ivec3





text \<open>
  A grid of two cells along x with one particle each (words \<open>(0 << 8) | 1\<close> and
  \<open>(1 << 8) | 1\<close>), cell size 0.2, and two particles 0.25 apart.
\<close>

definition grid2 :: Image3D where
  "grid2 = \<lparr> imageSize = Vec3 2 1 1,
             texels = (\<lambda>c. if c = Vec3 0 0 0 then 1 else if c = Vec3 1 0 0 then 257 else 0) \<rparr>"


definition two_apart :: "Particle list" where
  "two_apart = [at_rest (Vec3 0.1 0.1 0.1), at_rest (Vec3 0.35 0.1 0.1)]"

section \<open>sph_step6.cs: forces\<close>

definition VIS_COEFF :: real where "VIS_COEFF = 0.035"
definition SPIKY_KERNEL_WEIGHT_CONST :: real where
  "SPIKY_KERNEL_WEIGHT_CONST = 15.0 / (3.14159265 * KERNEL_RADIUS ^ 6)"
definition VIS_KERNEL_WEIGHT_CONST :: real where
  "VIS_KERNEL_WEIGHT_CONST = 45.0 / (3.14159265 * KERNEL_RADIUS ^ 6)"

text \<open>
  A float division by zero does not trap: it yields Inf or NaN, which then spreads through
  every later operation. The force pass therefore returns either its value or the first
  division by zero it met, named after its divisor.
\<close>

datatype fp_error = DivByZeroDistance | DivByZeroDensity

definition checked_vdiv :: "fp_error \<Rightarrow> vec3 \<Rightarrow> real \<Rightarrow> fp_error + vec3" where
  "checked_vdiv e v k = (if k = 0 then Inl e else Inr (vdiv v k))"

text \<open>
  The body of the neighbour loop from \<open>if (otherParticleId == particleId) continue;\<close> on.
  The accumulators are \<open>(forcePressure, forceViscosity)\<close>.
\<close>

definition force_body ::
  "Particle list \<Rightarrow> nat \<Rightarrow> Particle \<Rightarrow> nat \<Rightarrow> fp_error + (vec3 \<times> vec3) \<Rightarrow> fp_error + (vec3 \<times> vec3)" where
  "force_body particles particleId particle otherParticleId acc =
     (case acc of
        Inl e \<Rightarrow> Inl e
      | Inr (forcePressure, forceViscosity) \<Rightarrow>
          if otherParticleId = particleId then acc
          else
            (let otherParticle = ssbo_read particles otherParticleId;
                 r = position particle - position otherParticle;
                 rLen = vlength r
             in if rLen \<ge> KERNEL_RADIUS \<or> rLen \<le> 0.0001 then acc
                else
                  (case checked_vdiv DivByZeroDistance r rLen of
                     Inl e \<Rightarrow> Inl e
                   | Inr dir \<Rightarrow>
                       (let weightPressure =
                              vscale dir (SPIKY_KERNEL_WEIGHT_CONST * (KERNEL_RADIUS - rLen) ^ 2);
                            pres = pressure particle + pressure otherParticle;
                            weightVis = VIS_KERNEL_WEIGHT_CONST * (KERNEL_RADIUS - rLen);
                            velocityDiff = velocity otherParticle - velocity particle
                        in case checked_vdiv DivByZeroDensity
                                  (vscale weightPressure (MASS * pres))
                                  (2.0 * density otherParticle) of
                             Inl e \<Rightarrow> Inl e
                           | Inr dP \<Rightarrow>
                               (case checked_vdiv DivByZeroDensity
                                       (vscale (vscale velocityDiff MASS) weightVis)
                                       (density otherParticle) of
                                  Inl e \<Rightarrow> Inl e
                                | Inr dV \<Rightarrow> Inr (forcePressure - dP, forceViscosity + dV))))))"

definition step6_forces ::
  "Image3D \<Rightarrow> GridUniforms \<Rightarrow> Particle list \<Rightarrow> nat \<Rightarrow> Particle \<Rightarrow> fp_error + (vec3 \<times> vec3)" where
  "step6_forces grid u particles particleId particle =
     stencil_walk grid (gGridRes u)
       (voxelCoord (gInvCellSize u) (gGridOrigin u) (position particle))
       (force_body particles particleId particle) 0 0 0 (Inr (Vec3 0 0 0, Vec3 0 0 0))"

text \<open>
  Invocation \<open>particleId\<close> of \<open>main\<close>, with the uniforms \<open>uDT\<close> and \<open>uGravity\<close> as arguments:
  gravity, acceleration, the Euler step on the velocity and the clamp to \<open>maxVel = 50\<close>
  (\<open>normalize\<close> divides by a length above 50).
\<close>

definition step6_main ::
  "Image3D \<Rightarrow> GridUniforms \<Rightarrow> real \<Rightarrow> vec3 \<Rightarrow> Particle list \<Rightarrow> nat \<Rightarrow> fp_error + Particle list" where
  "step6_main grid u dt grav particles particleId =
     (if particleId \<ge> length particles then Inr particles
      else
        (let particle = particles ! particleId
         in case step6_forces grid u particles particleId particle of
              Inl e \<Rightarrow> Inl e
            | Inr (forcePressure, forceViscosity) \<Rightarrow>
                (let forceGravity = vscale grav (density particle);
                     totalForce = vscale forceViscosity VIS_COEFF + forcePressure + forceGravity
                 in case checked_vdiv DivByZeroDensity totalForce (density particle) of
                      Inl e \<Rightarrow> Inl e
                    | Inr acceleration \<Rightarrow>
                        (let vel = velocity particle + vscale acceleration dt;
                             maxVel = 50.0;
                             vel' = (if vlength vel > maxVel
                                     then vscale (vdiv vel (vlength vel)) maxVel else vel)
                         in Inr (particles [particleId := particle \<lparr> velocity := vel' \<rparr>])))))"

text \<open>Two particles at the same point, both in the single cell of a one-cell grid.\<close>

definition grid1 :: Image3D where
  "grid1 = \<lparr> imageSize = Vec3 1 1 1, texels = (\<lambda>c. 2) \<rparr>"

definition u1 :: GridUniforms where
  "u1 = \<lparr> gInvCellSize = Vec3 5 5 5, gGridOrigin = Vec3 0 0 0, gGridRes = Vec3 1 1 1 \<rparr>"

definition coincident :: "Particle list" where
  "coincident = [at_rest (Vec3 0.1 0.1 0.1), at_rest (Vec3 0.1 0.1 0.1)]"

section \<open>The counting sort: sph_step1.cs (count), sph_step2.cs, sph_step3.cs\<close>

text \<open>
  A dispatch runs one invocation per element of its index space, in no fixed order. The
  invocations of passes 1 and 3 touch shared memory only through atomics on the grid and
  through their own particle slot, and those of pass 2 only through the two atomic counters
  and their own voxel, so every execution is some sequential order of the invocations.
  That order is an argument of each pass.
\<close>

definition run_invocations :: "('st \<Rightarrow> nat \<Rightarrow> 'st) \<Rightarrow> nat list \<Rightarrow> 'st \<Rightarrow> 'st" where
  "run_invocations main order st = fold (\<lambda>i s. main s i) order st"

text \<open>
  \<open>glDispatchCompute((numParticles_ + 31) / 32, 1, 1)\<close> with \<open>local_size_x = 32\<close>:
  the values of \<open>gl_GlobalInvocationID.x\<close> for the particle count \<open>n\<close>.
\<close>

definition dispatch1D :: "uint \<Rightarrow> nat list" where
  "dispatch1D n = [0 ..< unat ((n + 31) div 32) * 32]"

text \<open>
  Every invocation of passes 1 and 3 returns at once when its index is not below
  \<open>particles.length()\<close>, the length of the buffer, which is the capacity and not the particle
  count. The records that the two passes process are therefore those below the number of
  invocations and below the length of the buffer.
\<close>

definition sorted_records :: "uint \<Rightarrow> Particle list \<Rightarrow> nat" where
  "sorted_records n particles = min (length (dispatch1D n)) (length particles)"

text \<open>
  Invocation \<open>particleId\<close> of sph_step1.cs on the particle buffer and the grid:
  the bounds check against the buffer length, the integration, and the count.
\<close>

definition step1_main :: "Step1Uniforms \<Rightarrow> Particle list \<times> Image3D \<Rightarrow> nat \<Rightarrow> Particle list \<times> Image3D" where
  "step1_main u st particleId =
     (case st of (particles, grid) \<Rightarrow>
        if particleId \<ge> length particles then st
        else
          (let particle = step1_integrate u (particles ! particleId);
               particles' = particles [particleId := particle];
               voxel = voxelCoord (uInvCellSize u) (uGridOrigin u) (position particle)
           in if in_image grid voxel
              then (particles', snd (imageAtomicAdd grid voxel 1))
              else (particles', grid)))"

text \<open>
  sph_step2.cs, one work group. \<open>invocations\<close> lists the voxels of the group in the order
  in which their \<open>atomicAdd(localParticleCount, ...)\<close> take effect. \<open>reserve_local\<close> is the
  part up to the first barrier: it pairs every voxel with its \<open>localParticleOffset\<close> and
  returns the final \<open>localParticleCount\<close>. After the global reservation by invocation 0,
  \<open>store_offsets\<close> is the \<open>imageStore\<close> of every invocation.
\<close>

fun reserve_local :: "Image3D \<Rightarrow> uint \<Rightarrow> ivec3 list \<Rightarrow> (ivec3 \<times> uint) list \<times> uint" where
  "reserve_local grid localParticleCount [] = ([], localParticleCount)"
| "reserve_local grid localParticleCount (voxelId # rest) =
     (let voxelParticleCount = imageLoad grid voxelId;
          localParticleOffset = localParticleCount;
          later = reserve_local grid (localParticleCount + voxelParticleCount) rest
      in ((voxelId, localParticleOffset) # fst later, snd later))"

definition store_offsets :: "uint \<Rightarrow> (ivec3 \<times> uint) list \<Rightarrow> Image3D \<Rightarrow> Image3D" where
  "store_offsets globalParticleBaseOffset offs grid =
     fold (\<lambda>(voxelId, localParticleOffset) g.
             imageStore g voxelId (push_bit 8 (globalParticleBaseOffset + localParticleOffset)))
          offs grid"

definition step2_group :: "ivec3 list \<Rightarrow> uint \<times> Image3D \<Rightarrow> uint \<times> Image3D" where
  "step2_group invocations st =
     (case st of (globalParticleCount, grid) \<Rightarrow>
        (let reserved = reserve_local grid 0 invocations;
             localParticleCount = snd reserved;
             globalParticleBaseOffset = globalParticleCount
         in (globalParticleCount + localParticleCount,
             store_offsets globalParticleBaseOffset (fst reserved) grid)))"

text \<open>
  The whole of pass 2: the host clears the counter, then the groups make their global
  reservations in the order of \<open>schedule\<close>.
\<close>

definition step2_pass :: "ivec3 list list \<Rightarrow> Image3D \<Rightarrow> uint \<times> Image3D" where
  "step2_pass schedule grid = fold step2_group schedule (0, grid)"

text \<open>
  The index space of pass 2: \<open>(gridDim + 3) / 4\<close> work groups of \<open>4 x 4 x 4\<close> invocations along
  each axis, for an image of size \<open>gridDim\<close>.
\<close>

definition workgroup_invocations :: "ivec3 \<Rightarrow> ivec3 list" where
  "workgroup_invocations w =
     concat (map (\<lambda>lz. concat (map (\<lambda>ly. map (\<lambda>lx.
        Vec3 (4 * vx w + lx) (4 * vy w + ly) (4 * vz w + lz)) [0..3]) [0..3])) [0..3])"

definition work_groups :: "ivec3 \<Rightarrow> ivec3 list" where
  "work_groups gridDim =
     concat (map (\<lambda>gz. concat (map (\<lambda>gy. map (\<lambda>gx. Vec3 gx gy gz)
        [0..(vx gridDim + 3) div 4 - 1]) [0..(vy gridDim + 3) div 4 - 1]))
        [0..(vz gridDim + 3) div 4 - 1])"

text \<open>
  A schedule of pass 2 runs every invocation of the dispatch exactly once, and each of its
  groups is one whole work group.
\<close>

definition pass2_schedule :: "ivec3 \<Rightarrow> ivec3 list list \<Rightarrow> bool" where
  "pass2_schedule gridDim schedule \<longleftrightarrow>
     distinct (concat schedule) \<and>
     set (concat schedule) = set (concat (map workgroup_invocations (work_groups gridDim))) \<and>
     (\<forall>grp \<in> set schedule. \<exists>w \<in> set (work_groups gridDim). set grp = set (workgroup_invocations w))"

text \<open>
  Invocation \<open>inParticleId\<close> of sph_step3.cs: \<open>inParticles\<close> is read only, the state is the
  output buffer and the grid. The slot index is computed in 32 bits.
\<close>

definition step3_main ::
  "vec3 \<Rightarrow> vec3 \<Rightarrow> Particle list \<Rightarrow> Particle list \<times> Image3D \<Rightarrow> nat \<Rightarrow> Particle list \<times> Image3D" where
  "step3_main invCellSize gridOrigin inParticles st inParticleId =
     (case st of (outParticles, grid) \<Rightarrow>
        if inParticleId \<ge> length inParticles then st
        else
          (let particle = inParticles ! inParticleId;
               voxel = voxelCoord invCellSize gridOrigin (position particle);
               voxelValue = fst (imageAtomicAdd grid voxel 1);
               grid' = snd (imageAtomicAdd grid voxel 1);
               offset = drop_bit 8 voxelValue;
               count = voxelValue AND 0xFF;
               outParticleId = unat (offset + count)
           in (if outParticleId < length outParticles
               then outParticles [outParticleId := particle] else outParticles,
               grid')))"

text \<open>\<open>glClearTexImage\<close> with the value 0.\<close>

definition clear_grid :: "Image3D \<Rightarrow> Image3D" where
  "clear_grid grid = grid \<lparr> texels := (\<lambda>c. 0) \<rparr>"

text \<open>
  The grid clear and passes 1 to 3 of one substep, as \<open>update\<close> and \<open>runSimulationPass\<close> issue
  them: pass 1 on the current buffer, pass 2 on the grid, pass 3 from the current buffer
  into the other one, which then becomes current. The result is
  (new current buffer, new other buffer, grid).
\<close>

definition sort_passes ::
  "Step1Uniforms \<Rightarrow> nat list \<Rightarrow> ivec3 list list \<Rightarrow> nat list \<Rightarrow>
   Particle list \<times> Particle list \<times> Image3D \<Rightarrow> Particle list \<times> Particle list \<times> Image3D" where
  "sort_passes u order1 schedule order3 st =
     (case st of (current, other, grid) \<Rightarrow>
        (let after1 = run_invocations (step1_main u) order1 (current, clear_grid grid);
             after2 = step2_pass schedule (snd after1);
             after3 = run_invocations (step3_main (uInvCellSize u) (uGridOrigin u) (fst after1))
                        order3 (other, snd after2)
         in (fst after3, fst after1, snd after3)))"

text \<open>The voxels whose local reservation precedes that of \<open>c\<close> in a sequence of voxels.\<close>

definition scheduled_before :: "ivec3 \<Rightarrow> ivec3 list \<Rightarrow> ivec3 list" where
  "scheduled_before c cells = takeWhile (\<lambda>x. x \<noteq> c) cells"

text \<open>A grid of two cells after pass 1: 2 particles counted in the first, 3 in the second.\<close>

definition counted2 :: Image3D where
  "counted2 = \<lparr> imageSize = Vec3 2 1 1,
                texels = (\<lambda>c. if c = Vec3 0 0 0 then 2 else if c = Vec3 1 0 0 then 3 else 0) \<rparr>"

text \<open>
  The voxel that pass 1 counts a particle into, and that pass 3 finds it in: the voxel of its
  position after integration.
\<close>

definition new_voxel :: "Step1Uniforms \<Rightarrow> Particle \<Rightarrow> ivec3" where
  "new_voxel u particle =
     voxelCoord (uInvCellSize u) (uGridOrigin u) (position (step1_integrate u particle))"

text \<open>
  The number of the first \<open>n\<close> particles of a buffer that pass 1 moves into voxel \<open>c\<close>.
\<close>

definition cell_population :: "Step1Uniforms \<Rightarrow> Particle list \<Rightarrow> nat \<Rightarrow> ivec3 \<Rightarrow> nat" where
  "cell_population u particles n c =
     length (filter (\<lambda>i. new_voxel u (particles ! i) = c) [0 ..< n])"

text \<open>
  The sum of \<open>f\<close> over the voxels whose reservation precedes that of \<open>c\<close>.
\<close>

definition reserved_before :: "(ivec3 \<Rightarrow> nat) \<Rightarrow> ivec3 \<Rightarrow> ivec3 list \<Rightarrow> nat" where
  "reserved_before f c cells = sum_list (map f (scheduled_before c cells))"

text \<open>
  The grid that \<open>sort_passes\<close> leaves.
\<close>

definition sorted_grid ::
  "Step1Uniforms \<Rightarrow> nat list \<Rightarrow> ivec3 list list \<Rightarrow> nat list \<Rightarrow>
   Particle list \<Rightarrow> Particle list \<Rightarrow> Image3D \<Rightarrow> Image3D" where
  "sorted_grid u order1 schedule order3 current other grid =
     snd (snd (sort_passes u order1 schedule order3 (current, other, grid)))"

text \<open>
  A box of size \<open>4 x 2 x 2\<close> with a grid of \<open>2 x 1 x 1\<close> cells, \<open>uInvCellSize\<close> as the host computes it
  (\<open>gridRes * 0.999 / gridSize\<close>), no gravity and no impulse request; one particle at rest in
  each cell; 16 particles in each cell; 256 particles in the left cell.
\<close>

definition tank :: Step1Uniforms where
  "tank = \<lparr> uDT = DT, uGravity = Vec3 0 0 0, uGridOrigin = Vec3 0 0 0,
            uGridSize = Vec3 4 2 2, uInvCellSize = Vec3 0.4995 0.4995 0.4995,
            uSpherePosition = Vec3 0 0 0, uSphereImpulse = Vec3 0 0 0,
            uSphereRadius = 0, uSphereActive = 0 \<rparr>"

definition tank_grid :: Image3D where
  "tank_grid = \<lparr> imageSize = Vec3 2 1 1, texels = (\<lambda>c. 0) \<rparr>"

definition left_particle :: Particle where
  "left_particle = at_rest (Vec3 1 1 1)"

definition right_particle :: Particle where
  "right_particle = at_rest (Vec3 3 1 1)"

definition half_and_half :: "Particle list" where
  "half_and_half = replicate 16 left_particle @ replicate 16 right_particle"

definition crowd :: "Particle list" where
  "crowd = replicate 256 left_particle"





text \<open>
  \<open>glm::vec3 invCellSize = glm::vec3(gridRes_) * (1.0f - 0.001f) / gridSize_\<close> of
  \<open>runSimulationPass\<close>, the value of the uniform \<open>uInvCellSize\<close> in every pass.
\<close>

definition host_invCellSize :: "ivec3 \<Rightarrow> vec3 \<Rightarrow> vec3" where
  "host_invCellSize gridRes gridSize =
     Vec3 (real_of_int (vx gridRes) * (1.0 - 0.001) / vx gridSize)
          (real_of_int (vy gridRes) * (1.0 - 0.001) / vy gridSize)
          (real_of_int (vz gridRes) * (1.0 - 0.001) / vz gridSize)"

section \<open>Capacity rounding in initialize\<close>

text \<open>
  C3, as stated, at the request 1000: the spec's rounding gives 1024, the code gives 50176,
  because \<open>initialize\<close> first raises the request to at least 50000.
\<close>

theorem initialize_capacity_counterexample:
  "unat (initialize_maxParticles 1000) = 50176 \<and> 512 * ((1000 + 511) div 512) = (1024::nat)"
  by (simp add: initialize_maxParticles_def)

text \<open>
  C3 (amended): for every request \<open>n\<close> of at most \<open>2^32 - 512\<close>, \<open>initialize\<close> sets the
  capacity to \<open>max n 50000\<close> rounded up to the nearest multiple of 512.
\<close>

theorem initialize_capacity:
  assumes "unat n \<le> 2 ^ 32 - 512"
  shows "unat (initialize_maxParticles n) = 512 * ((max (unat n) 50000 + 511) div 512)"
proof -
  define m where "m = max n 50000"
  have um: "unat m = max (unat n) 50000"
    by (simp add: m_def max_def word_le_nat_alt)
  have le: "unat m \<le> 2 ^ 32 - 512" using assms um by simp
  have a: "unat (m + 511) = unat m + 511"
    using le by (simp add: unat_add_lem [THEN iffD1])
  have d: "unat ((m + 511) div 512) = (unat m + 511) div 512"
    by (simp add: unat_div a)
  have "unat (((m + 511) div 512) * 512) = ((unat m + 511) div 512) * 512"
    using le d by (simp add: unat_mult_lem [THEN iffD1])
  then show ?thesis
    by (simp add: initialize_maxParticles_def m_def [symmetric] um Let_def mult.commute)
qed

theorem initialize_capacity_witness:
  "unat (60000 :: uint) \<le> 2 ^ 32 - 512 \<and>
   unat (initialize_maxParticles 60000) = 512 * ((max (unat (60000 :: uint)) 50000 + 511) div 512) \<and>
   unat (initialize_maxParticles 60000) = 60416"
  using initialize_capacity [of 60000] by simp

section \<open>addParticles\<close>

lemma length_makeParticles: "length (makeParticles ps vs) = length ps"
  by (simp add: makeParticles_def)

text \<open>
  C10: a call of \<open>addParticles\<close> with arrays of different lengths returns at once; the
  whole system state, so the particle count and both particle buffers, is unchanged.
\<close>

theorem addParticles_length_mismatch:
  "length positions \<noteq> length velocities \<Longrightarrow> addParticles positions velocities s = s"
  by (simp add: addParticles_def)

theorem addParticles_length_mismatch_witness:
  "length [Vec3 1 2 3, Vec3 4 5 (6::real)] \<noteq> length [Vec3 0 0 (0::real)] \<and>
   addParticles [Vec3 1 2 3, Vec3 4 5 6] [Vec3 0 0 0] SPHComputeSystem_ctor = SPHComputeSystem_ctor"
  using addParticles_length_mismatch [of "[Vec3 1 2 3, Vec3 4 5 6]" "[Vec3 0 0 0]" SPHComputeSystem_ctor]
  by simp

text \<open>
  C7: equal-length arrays whose length, added to the particle count, exceeds the capacity
  (the count itself never exceeds the capacity, and the current buffer holds one record per
  unit of capacity, as \<open>createBuffers\<close> allocates it). The call is not rejected: the count
  becomes the capacity, the records below the old count are kept, and the records from the
  old count on are built from the first \<open>capacity - count\<close> positions and velocities.
  With a full system that prefix is empty.
\<close>

theorem addParticles_overflow_prefix:
  assumes len: "length positions = length velocities"
    and inv: "numParticles s \<le> maxParticles s"
    and over: "unat (numParticles s) + length positions > unat (maxParticles s)"
    and buf: "length (particleBuffers s (currentBuffer s)) = unat (maxParticles s)"
  shows "numParticles (addParticles positions velocities s) = maxParticles s \<and>
         particleBuffers (addParticles positions velocities s) (currentBuffer s) =
          take (unat (numParticles s)) (particleBuffers s (currentBuffer s)) @
          makeParticles (take (unat (maxParticles s) - unat (numParticles s)) positions)
                        (take (unat (maxParticles s) - unat (numParticles s)) velocities)"
proof -
  let ?k = "unat (maxParticles s) - unat (numParticles s)"
  let ?buf = "particleBuffers s (currentBuffer s)"
  have le: "unat (numParticles s) \<le> unat (maxParticles s)"
    using inv by (simp add: word_le_nat_alt)
  have k: "unat (maxParticles s - numParticles s) = ?k" using inv by (simp add: unat_sub)
  have klt: "?k < length positions" using over le by simp
  have rp: "resize_vec ?k positions = take ?k positions"
    using klt by (simp add: resize_vec_def)
  have rv: "resize_vec ?k velocities = take ?k velocities"
    using klt len by (simp add: resize_vec_def)
  show ?thesis
  proof (cases "?k = 0")
    case True
    then have eq: "unat (numParticles s) = unat (maxParticles s)" using le by simp
    then have "numParticles s = maxParticles s" by (simp add: word_unat_eq_iff)
    moreover have "makeParticles [] [] = []" by (simp add: makeParticles_def)
    ultimately show ?thesis
      using True len over k buf by (simp add: addParticles_def)
  next
    case False
    have add: "addParticles positions velocities s =
               uploadParticles (take ?k positions) (take ?k velocities) s"
      using False len over k rp rv by (simp add: addParticles_def Let_def)
    have lk: "length (take ?k positions) = ?k" using klt by simp
    have "numParticles s + of_nat ?k = maxParticles s"
    proof -
      have "(of_nat ?k :: uint) = maxParticles s - numParticles s"
        using k [symmetric] by simp
      then show ?thesis by simp
    qed
    moreover have "bufferSubData ?buf (unat (numParticles s))
                     (makeParticles (take ?k positions) (take ?k velocities))
                   = take (unat (numParticles s)) ?buf @
                     makeParticles (take ?k positions) (take ?k velocities)"
      using buf le lk by (simp add: bufferSubData_def length_makeParticles)
    ultimately show ?thesis
      using lk by (simp add: add uploadParticles_def Let_def)
  qed
qed

theorem addParticles_overflow_prefix_witness:
  "length [Vec3 1 2 3, Vec3 4 5 (6::real)] = length [Vec3 7 8 9, Vec3 0 0 (0::real)] \<and>
   numParticles almost_full \<le> maxParticles almost_full \<and>
   unat (numParticles almost_full) + length [Vec3 1 2 3, Vec3 4 5 (6::real)]
     > unat (maxParticles almost_full) \<and>
   length (particleBuffers almost_full (currentBuffer almost_full)) = unat (maxParticles almost_full) \<and>
   numParticles (addParticles [Vec3 1 2 3, Vec3 4 5 6] [Vec3 7 8 9, Vec3 0 0 0] almost_full) = 4 \<and>
   particleBuffers (addParticles [Vec3 1 2 3, Vec3 4 5 6] [Vec3 7 8 9, Vec3 0 0 0] almost_full) 0 =
     [p0, p0, p0,
      \<lparr> position = Vec3 1 2 3, density = REST_DENSITY, velocity = Vec3 7 8 9, pressure = 0 \<rparr>]"
  using addParticles_overflow_prefix
          [of "[Vec3 1 2 3, Vec3 4 5 6]" "[Vec3 7 8 9, Vec3 0 0 0]" almost_full]
  by (simp add: almost_full_def SPHComputeSystem_ctor_def makeParticles_def)

section \<open>The fixed-step accumulator of update\<close>

text \<open>
  Facts about the binary32 rounding: the exponent found by the search is the binade of the
  value, the rounding error is at most half a unit in the last place, and a non-negative
  value is rounded to a non-negative one.
\<close>

lemma pow2_powr: "pow2 e = 2 powr (real_of_int e)"
  by (auto simp: pow2_def powr_realpow [symmetric] powr_minus field_simps)

lemma pow2_pos: "0 < pow2 e" by (simp add: pow2_powr)

lemma pow2_mono: "a \<le> b \<Longrightarrow> pow2 a \<le> pow2 b" by (simp add: pow2_powr)

lemma pow2_less_iff: "pow2 a < pow2 b \<longleftrightarrow> a < b" by (simp add: pow2_powr)

lemma exponent_search_unique:
  "pow2 E \<le> y \<Longrightarrow> y < pow2 (E + 1) \<Longrightarrow> E \<le> e \<Longrightarrow> e - int fuel \<le> E \<Longrightarrow>
   exponent_search fuel e y = E"
proof (induction fuel arbitrary: e)
  case 0
  then show ?case by simp
next
  case (Suc fuel)
  show ?case
  proof (cases "pow2 e \<le> y")
    case True
    with Suc.prems have "pow2 e < pow2 (E + 1)" by simp
    then have "e < E + 1" by (simp add: pow2_less_iff)
    with Suc.prems True show ?thesis by simp
  next
    case False
    with Suc.prems have "e \<noteq> E" by auto
    with Suc.prems have "E \<le> e - 1" by simp
    moreover have "e - 1 - int fuel \<le> E" using Suc.prems by simp
    ultimately have "exponent_search fuel (e - 1) y = E" using Suc.prems Suc.IH by blast
    with False show ?thesis by simp
  qed
qed

lemma float32_exponent_eq:
  "pow2 E \<le> \<bar>y\<bar> \<Longrightarrow> \<bar>y\<bar> < pow2 (E + 1) \<Longrightarrow> - 126 \<le> E \<Longrightarrow> E \<le> 127 \<Longrightarrow> float32_exponent y = E"
  unfolding float32_exponent_def by (rule exponent_search_unique) simp_all

lemma exponent_search_bounds:
  "exponent_search fuel e y \<le> e \<and> e - int fuel \<le> exponent_search fuel e y \<and>
   (pow2 (exponent_search fuel e y) \<le> y \<or> exponent_search fuel e y = e - int fuel)"
proof (induction fuel arbitrary: e)
  case 0
  then show ?case by simp
next
  case (Suc fuel)
  from Suc.IH [of "e - 1"] show ?case by auto
qed

lemma float32_exponent_le:
  assumes "\<bar>y\<bar> < pow2 E" "- 126 < E"
  shows "float32_exponent y < E"
proof -
  from exponent_search_bounds [of 253 127 "\<bar>y\<bar>"]
  have "pow2 (float32_exponent y) \<le> \<bar>y\<bar> \<or> float32_exponent y = - 126"
    by (simp add: float32_exponent_def)
  then show ?thesis
  proof
    assume "pow2 (float32_exponent y) \<le> \<bar>y\<bar>"
    with assms have "pow2 (float32_exponent y) < pow2 E" by simp
    then show ?thesis by (simp add: pow2_less_iff)
  next
    assume "float32_exponent y = - 126"
    with assms show ?thesis by simp
  qed
qed

lemma round_half_even_error: "\<bar>of_int (round_half_even z) - z\<bar> \<le> 1 / 2"
  unfolding round_half_even_def by (auto simp: abs_real_def) linarith+

lemma round_half_even_nonneg: "0 \<le> z \<Longrightarrow> 0 \<le> round_half_even z"
  unfolding round_half_even_def by auto

lemma float32_round_error:
  "\<bar>float32_round y - y\<bar> \<le> pow2 (float32_exponent y - 23) / 2"
proof -
  let ?u = "pow2 (float32_exponent y - 23)"
  have u: "0 < ?u" by (rule pow2_pos)
  have "float32_round y - y = (of_int (round_half_even (y / ?u)) - y / ?u) * ?u"
    using u by (simp add: float32_round_def field_simps)
  then have "\<bar>float32_round y - y\<bar> = \<bar>of_int (round_half_even (y / ?u)) - y / ?u\<bar> * ?u"
    using u by (simp add: abs_mult)
  also have "\<dots> \<le> (1 / 2) * ?u"
    using u round_half_even_error [of "y / ?u"] by (intro mult_right_mono) simp_all
  finally show ?thesis by simp
qed

lemma float32_round_nonneg: "0 \<le> y \<Longrightarrow> 0 \<le> float32_round y"
  unfolding float32_round_def
  by (intro mult_nonneg_nonneg) (simp_all add: round_half_even_nonneg pow2_pos less_imp_le)


lemma pow2_numeral [simp]:
  "pow2 (numeral n) = 2 ^ numeral n" "pow2 (- numeral n) = 1 / 2 ^ numeral n" "pow2 0 = 1"
  by (simp_all add: pow2_def)

lemma DT_float_value: "DT_float = 5153961 / 2 ^ 32"
proof -
  have e: "float32_exponent DT = - 10"
    by (rule float32_exponent_eq) (simp_all add: DT_def)
  show ?thesis
    by (simp add: DT_float_def float32_round_def e) (simp add: DT_def round_half_even_def)
qed

lemma fsub_step:
  assumes lo: "DT_float \<le> a" and hi: "a \<le> 2 ^ 15"
  shows "0 \<le> fsub a DT_float \<and> fsub a DT_float \<le> a - (DT_float - 1 / 2 ^ 10)"
proof -
  let ?y = "a - DT_float"
  have y0: "0 \<le> ?y" using lo by simp
  have dpos: "0 < DT_float" by (simp add: DT_float_value)
  have "\<bar>?y\<bar> < pow2 15" using y0 hi dpos by simp
  then have "float32_exponent ?y < 15" by (rule float32_exponent_le) simp
  then have "float32_exponent ?y - 23 \<le> - 9" by simp
  then have "pow2 (float32_exponent ?y - 23) \<le> pow2 (- 9)" by (rule pow2_mono)
  then have u: "pow2 (float32_exponent ?y - 23) / 2 \<le> 1 / 2 ^ 10" by simp
  have "\<bar>float32_round ?y - ?y\<bar> \<le> 1 / 2 ^ 10"
    using float32_round_error [of ?y] u by linarith
  then have "float32_round ?y \<le> ?y + 1 / 2 ^ 10" by linarith
  moreover have "0 \<le> float32_round ?y" using y0 by (rule float32_round_nonneg)
  ultimately show ?thesis by (simp add: fsub_def)
qed

lemma update_loop_returns:
  assumes "0 \<le> a" "a \<le> 2 ^ 15"
  shows "\<exists>k. update_loop substep a s
               = Some (((\<lambda>acc. fsub acc DT_float) ^^ k) a, (substep ^^ k) s) \<and>
             (\<forall>j < k. DT_float \<le> ((\<lambda>acc. fsub acc DT_float) ^^ j) a) \<and>
             0 \<le> ((\<lambda>acc. fsub acc DT_float) ^^ k) a \<and>
             ((\<lambda>acc. fsub acc DT_float) ^^ k) a < DT_float"
  using assms
proof (induction "nat \<lfloor>a / (DT_float - 1 / 2 ^ 10)\<rfloor>" arbitrary: a s rule: less_induct)
  case less
  let ?d = "DT_float - 1 / 2 ^ 10"
  let ?step = "\<lambda>acc. fsub acc DT_float"
  have d: "0 < ?d" by (simp add: DT_float_value)
  show ?case
  proof (cases "DT_float \<le> a")
    case False
    then have "update_loop substep a s = Some (a, s)" by (subst update_loop.simps) simp
    with False less.prems show ?thesis by (intro exI [of _ 0]) simp
  next
    case True
    let ?a' = "fsub a DT_float"
    from fsub_step [OF True less.prems(2)] have a0: "0 \<le> ?a'" and a1: "?a' \<le> a - ?d" by simp_all
    have a2: "?a' \<le> 2 ^ 15" using a1 d less.prems by simp
    have "?a' / ?d \<le> a / ?d - 1"
    proof -
      have "?a' / ?d \<le> (a - ?d) / ?d" using a1 d by (simp add: divide_right_mono)
      also have "\<dots> = a / ?d - 1" using d by (simp add: field_simps)
      finally show ?thesis .
    qed
    then have "\<lfloor>?a' / ?d\<rfloor> \<le> \<lfloor>a / ?d\<rfloor> - 1" by (metis floor_diff_one floor_mono)
    moreover have "0 \<le> \<lfloor>?a' / ?d\<rfloor>" using a0 d by simp
    ultimately have m: "nat \<lfloor>?a' / ?d\<rfloor> < nat \<lfloor>a / ?d\<rfloor>" by linarith
    from less.hyps [OF m a0 a2, of "substep s"] obtain k where
      k: "update_loop substep ?a' (substep s) = Some ((?step ^^ k) ?a', (substep ^^ k) (substep s))"
         "\<forall>j < k. DT_float \<le> (?step ^^ j) ?a'"
         "0 \<le> (?step ^^ k) ?a'" "(?step ^^ k) ?a' < DT_float"
      by blast
    have u: "update_loop substep a s = update_loop substep ?a' (substep s)"
      using True by (subst update_loop.simps) simp
    have "\<forall>j < Suc k. DT_float \<le> (?step ^^ j) a"
    proof (intro allI impI)
      fix j assume "j < Suc k"
      show "DT_float \<le> (?step ^^ j) a"
      proof (cases j)
        case 0
        with True show ?thesis by simp
      next
        case (Suc i)
        have "(?step ^^ Suc i) a = (?step ^^ i) ?a'" by (simp only: funpow_Suc_right o_apply)
        with Suc \<open>j < Suc k\<close> k(2) show ?thesis by (simp del: funpow.simps)
      qed
    qed
    moreover have "(?step ^^ Suc k) a = (?step ^^ k) ?a'" "(substep ^^ Suc k) s = (substep ^^ k) (substep s)"
      by (simp_all only: funpow_Suc_right o_apply)
    ultimately show ?thesis using k u
      by (intro exI [of _ "Suc k"]) (simp del: funpow.simps)
  qed
qed

lemma update_loop_stuck:
  assumes stuck: "fsub a DT_float = a" and ge: "DT_float \<le> a"
  shows "update_loop substep a s = None"
proof (rule ccontr)
  assume "update_loop substep a s \<noteq> None"
  then obtain r where r: "update_loop substep a s = Some r" by auto
  have "update_loop f x t = Some y \<Longrightarrow> x \<noteq> a" for f :: "'a \<Rightarrow> 'a" and x t y
  proof (induction arbitrary: rule: update_loop.raw_induct [rotated 1, consumes 1])
    case (1 update_loop f x t y)
    show ?case
    proof
      assume "x = a"
      with 1(2) ge stuck have "update_loop f a (f t) = Some y" by simp
      with 1(1) show False by blast
    qed
  qed
  with r show False by blast
qed

lemma pow2_add: "pow2 (a + b) = pow2 a * pow2 b"
  by (simp add: pow2_powr powr_add)

lemma pow2_nat: "0 \<le> e \<Longrightarrow> pow2 e = of_int (2 ^ nat e)"
  by (simp add: pow2_def)

lemma exponent_search_lower:
  "pow2 E \<le> y \<Longrightarrow> E \<le> e \<Longrightarrow> E \<le> exponent_search fuel e y"
proof (induction fuel arbitrary: e)
  case 0
  then show ?case by simp
next
  case (Suc fuel)
  show ?case
  proof (cases "pow2 e \<le> y")
    case True
    with Suc.prems show ?thesis by simp
  next
    case False
    with Suc.prems have "e \<noteq> E" by auto
    with Suc.prems have "E \<le> e - 1" by simp
    with Suc.prems Suc.IH have "E \<le> exponent_search fuel (e - 1) y" by blast
    with False show ?thesis by simp
  qed
qed

lemma exponent_search_upper:
  "exponent_search fuel e y < e \<Longrightarrow> y < pow2 (exponent_search fuel e y + 1)"
proof (induction fuel arbitrary: e)
  case 0
  then show ?case by simp
next
  case (Suc fuel)
  show ?case
  proof (cases "pow2 e \<le> y")
    case True
    with Suc.prems show ?thesis by simp
  next
    case False
    then have r: "exponent_search (Suc fuel) e y = exponent_search fuel (e - 1) y" by simp
    show ?thesis
    proof (cases "exponent_search fuel (e - 1) y < e - 1")
      case True
      with Suc.IH r show ?thesis by simp
    next
      case False
      with exponent_search_bounds [of fuel "e - 1" y]
      have "exponent_search fuel (e - 1) y = e - 1" by simp
      with r \<open>\<not> pow2 e \<le> y\<close> show ?thesis by simp
    qed
  qed
qed

lemma float32_exponent_range: "- 126 \<le> float32_exponent y \<and> float32_exponent y \<le> 127"
  using exponent_search_bounds [of 253 127 "\<bar>y\<bar>"] by (simp add: float32_exponent_def)

lemma float32_exponent_lower: "pow2 E \<le> \<bar>y\<bar> \<Longrightarrow> E \<le> 127 \<Longrightarrow> E \<le> float32_exponent y"
  unfolding float32_exponent_def by (rule exponent_search_lower)

lemma float32_exponent_upper:
  "float32_exponent y < 127 \<Longrightarrow> \<bar>y\<bar> < pow2 (float32_exponent y + 1)"
  unfolding float32_exponent_def by (rule exponent_search_upper)

lemma round_half_even_below:
  assumes "0 < eps" "eps < 1 / 2"
  shows "round_half_even (of_int n - eps) = n"
proof -
  have "\<lfloor>of_int n - eps\<rfloor> = n - 1" using assms by linarith
  then show ?thesis using assms by (simp add: round_half_even_def)
qed

lemma float32_round_le_binade:
  assumes "float32_exponent x < 127"
  shows "float32_round x \<le> pow2 (float32_exponent x + 1)"
proof -
  let ?e = "float32_exponent x"
  let ?u = "pow2 (?e - 23)"
  have u: "0 < ?u" by (rule pow2_pos)
  have p: "pow2 (?e + 1) = 2 ^ 24 * ?u"
    using pow2_add [of 24 "?e - 23"] by (simp add: add.commute)
  have "\<bar>x\<bar> < 2 ^ 24 * ?u" using float32_exponent_upper [OF assms] p by simp
  then have "x < 2 ^ 24 * ?u" by simp
  then have "x / ?u < 2 ^ 24" using u by (simp add: field_simps)
  moreover have "of_int (round_half_even (x / ?u)) \<le> x / ?u + 1 / 2"
    using round_half_even_error [of "x / ?u"] by linarith
  ultimately have "real_of_int (round_half_even (x / ?u)) < 16777216 + 1 / 2" by simp
  then have "round_half_even (x / ?u) \<le> 16777216" by linarith
  then have "real_of_int (round_half_even (x / ?u)) \<le> 2 ^ 24" by simp
  then have "real_of_int (round_half_even (x / ?u)) * ?u \<le> 2 ^ 24 * ?u"
    using u by (intro mult_right_mono) simp_all
  then show ?thesis by (simp add: float32_round_def p)
qed

lemma fsub_stuck:
  assumes big: "2 ^ 15 < float32_round x"
  shows "fsub (float32_round x) DT_float = float32_round x"
proof -
  define ex where "ex = float32_exponent x"
  define u where "u = pow2 (ex - 23)"
  define m where "m = round_half_even (x / u)"
  define a where "a = float32_round x"
  have a: "a = of_int m * u" by (simp add: a_def m_def u_def ex_def float32_round_def)
  have u0: "0 < u" by (simp add: u_def pow2_pos)
  have big': "2 ^ 15 < a" using big by (simp add: a_def)
  have rng: "ex \<le> 127" using float32_exponent_range [of x] by (simp add: ex_def)
  have ex15: "15 \<le> ex"
  proof (rule ccontr)
    assume "\<not> 15 \<le> ex"
    then have l: "ex < 127" "ex + 1 \<le> 15" by simp_all
    from float32_round_le_binade [of x] l(1) have "a \<le> pow2 (ex + 1)" by (simp add: a_def ex_def)
    also have "\<dots> \<le> pow2 15" using l(2) by (rule pow2_mono)
    finally show False using big' by simp
  qed
  have ule: "1 / 2 ^ 8 \<le> u" using pow2_mono [of "- 8" "ex - 23"] ex15 by (simp add: u_def)
  have mpos: "0 < m"
  proof -
    have "0 < of_int m * u" using big' a by simp
    then have "0 < real_of_int m" using u0 by (simp add: zero_less_mult_iff)
    then show ?thesis by simp
  qed
  have step: "2 ^ 15 + 1 / 2 ^ 8 \<le> a"
  proof (cases "ex \<le> 38")
    case True
    define q :: int where "q = 2 ^ nat (38 - ex)"
    have "pow2 (38 - ex) * u = pow2 15" using pow2_add [of "38 - ex" "ex - 23"] by (simp add: u_def)
    moreover have "pow2 (38 - ex) = of_int q" using True by (simp add: pow2_nat q_def)
    ultimately have qu: "of_int q * u = 2 ^ 15" by simp
    from big' a qu have "of_int q * u < of_int m * u" by simp
    then have "real_of_int q < of_int m" using u0 by (simp add: mult_less_cancel_right)
    then have "q + 1 \<le> m" by simp
    then have "real_of_int (q + 1) \<le> of_int m" by (simp only: of_int_le_iff)
    then have "of_int (q + 1) * u \<le> of_int m * u" using u0 by (intro mult_right_mono) simp_all
    then have "2 ^ 15 + u \<le> a" using qu a by (simp add: algebra_simps)
    with ule show ?thesis by simp
  next
    case False
    then have "pow2 16 \<le> u" unfolding u_def by (intro pow2_mono) simp
    then have "2 ^ 16 \<le> u" by simp
    moreover have "1 * u \<le> of_int m * u" using mpos u0 by (intro mult_right_mono) simp_all
    then have "u \<le> a" using a by simp
    ultimately show ?thesis by simp
  qed
  define y where "y = a - DT_float"
  have y15: "2 ^ 15 \<le> y" using step by (simp add: y_def DT_float_value)
  have ya: "y < a" by (simp add: y_def DT_float_value)
  define e' where "e' = float32_exponent y"
  have e15: "15 \<le> e'" unfolding e'_def using y15 by (intro float32_exponent_lower) simp_all
  have ele: "e' \<le> ex"
  proof (cases "ex = 127")
    case True
    then show ?thesis using float32_exponent_range [of y] by (simp add: e'_def)
  next
    case False
    with rng have l: "ex < 127" by simp
    from float32_round_le_binade [of x] l have "a \<le> pow2 (ex + 1)" by (simp add: a_def ex_def)
    with ya y15 have "\<bar>y\<bar> < pow2 (ex + 1)" by simp
    then have "float32_exponent y < ex + 1" by (rule float32_exponent_le) (use ex15 in simp)
    then show ?thesis by (simp add: e'_def)
  qed
  define u' where "u' = pow2 (e' - 23)"
  have u'0: "0 < u'" by (simp add: u'_def pow2_pos)
  define n where "n = m * 2 ^ nat (ex - e')"
  have "u = pow2 (ex - e') * u'" using pow2_add [of "ex - e'" "e' - 23"] by (simp add: u_def u'_def)
  moreover have "pow2 (ex - e') = of_int (2 ^ nat (ex - e'))" using ele by (simp add: pow2_nat)
  ultimately have an: "a = of_int n * u'" using a by (simp add: n_def)
  have u'8: "1 / 2 ^ 8 \<le> u'" using pow2_mono [of "- 8" "e' - 23"] e15 by (simp add: u'_def)
  have yn: "y / u' = of_int n - DT_float / u'" using u'0 by (simp add: y_def an field_simps)
  have d0: "0 < DT_float" by (simp add: DT_float_value)
  have "2 * DT_float < 1 / 2 ^ 8" by (simp add: DT_float_value)
  with u'8 have "2 * DT_float < u'" by linarith
  then have eps: "0 < DT_float / u'" "DT_float / u' < 1 / 2"
    using u'0 d0 by (simp_all add: field_simps)
  have "round_half_even (y / u') = n" unfolding yn using eps by (rule round_half_even_below)
  then have "float32_round y = of_int n * u'" by (simp add: float32_round_def e'_def [symmetric] u'_def [symmetric])
  then have "float32_round (a - DT_float) = a" unfolding y_def an .
  then show ?thesis by (simp add: fsub_def a_def)
qed

lemma float32_round_value:
  assumes "pow2 E \<le> \<bar>y\<bar>" "\<bar>y\<bar> < pow2 (E + 1)" "- 126 \<le> E" "E \<le> 127"
    and "round_half_even (y / pow2 (E - 23)) = m"
  shows "float32_round y = of_int m * pow2 (E - 23)"
  using float32_exponent_eq [OF assms(1-4)] assms(5) by (simp add: float32_round_def)

lemma float32_round_0: "float32_round 0 = 0"
  by (simp add: float32_round_def round_half_even_def)

lemma update_loop_run:
  assumes "\<forall>j<n. DT_float \<le> ((\<lambda>acc. fsub acc DT_float) ^^ j) a"
    and "((\<lambda>acc. fsub acc DT_float) ^^ n) a < DT_float"
  shows "update_loop substep a s = Some (((\<lambda>acc. fsub acc DT_float) ^^ n) a, (substep ^^ n) s)"
  using assms
proof (induction n arbitrary: a s)
  case 0
  then show ?case by (subst update_loop.simps) simp
next
  case (Suc n)
  let ?step = "\<lambda>acc. fsub acc DT_float"
  have sw: "(?step ^^ Suc j) a = (?step ^^ j) (fsub a DT_float)" for j
    by (simp only: funpow_Suc_right o_apply)
  have sw': "(substep ^^ Suc n) s = (substep ^^ n) (substep s)"
    by (simp only: funpow_Suc_right o_apply)
  from Suc.prems(1) have ge: "DT_float \<le> a" by force
  have "\<forall>j<n. DT_float \<le> (?step ^^ j) (fsub a DT_float)"
  proof (intro allI impI)
    fix j assume "j < n"
    then have "Suc j < Suc n" by simp
    with Suc.prems(1) have "DT_float \<le> (?step ^^ Suc j) a" by blast
    then show "DT_float \<le> (?step ^^ j) (fsub a DT_float)" by (simp only: sw)
  qed
  moreover have "(?step ^^ n) (fsub a DT_float) < DT_float" using Suc.prems(2) by (simp only: sw)
  ultimately have "update_loop substep (fsub a DT_float) (substep s)
      = Some ((?step ^^ n) (fsub a DT_float), (substep ^^ n) (substep s))"
    by (rule Suc.IH)
  moreover have "update_loop substep a s = update_loop substep (fsub a DT_float) (substep s)"
    using ge by (subst update_loop.simps) simp
  ultimately show ?case by (simp only: sw sw')
qed

lemma first_below_unique:
  fixes d :: real
  assumes "\<forall>j<k. d \<le> (f ^^ j) a" "(f ^^ k) a < d" "\<forall>j<n. d \<le> (f ^^ j) a" "(f ^^ n) a < d"
  shows "k = n"
proof (rule ccontr)
  assume "k \<noteq> n"
  then consider "k < n" | "n < k" by linarith
  then show False
  proof cases
    case 1
    with assms(3) have "d \<le> (f ^^ k) a" by blast
    with assms(2) show False by simp
  next
    case 2
    with assms(1) have "d \<le> (f ^^ n) a" by blast
    with assms(4) show False by simp
  qed
qed

lemma fadd_example: "fadd 0 example_frame = example_frame"
  unfolding fadd_def example_frame_def
  by (subst float32_round_value [where E = "- 8" and m = 15461882]) (simp_all add: round_half_even_def)

lemma fsub_example:
  "fsub (7730941 / 2 ^ 30) DT_float = 6442451 / 2 ^ 30"
  "fsub (6442451 / 2 ^ 30) DT_float = 5153961 / 2 ^ 30"
  "fsub (5153961 / 2 ^ 30) DT_float = 15461883 / 2 ^ 32"
  "fsub (15461883 / 2 ^ 32) DT_float = 5153961 / 2 ^ 31"
  "fsub (5153961 / 2 ^ 31) DT_float = 5153961 / 2 ^ 32"
  "fsub (5153961 / 2 ^ 32) DT_float = 0"
  unfolding fsub_def DT_float_value
       apply (subst float32_round_value [where E = "- 8" and m = 12884902]; simp add: round_half_even_def)
      apply (subst float32_round_value [where E = "- 8" and m = 10307922]; simp add: round_half_even_def)
     apply (subst float32_round_value [where E = "- 9" and m = 15461883]; simp add: round_half_even_def)
    apply (subst float32_round_value [where E = "- 9" and m = 10307922]; simp add: round_half_even_def)
   apply (subst float32_round_value [where E = "- 10" and m = 10307922]; simp add: round_half_even_def)
  apply (simp add: float32_round_0)
  done

lemma float32_round_large: "float32_round 40000 = 40000"
  by (subst float32_round_value [where E = 15 and m = 10240000]) (simp_all add: round_half_even_def)

lemma fadd_large: "fadd 0 40000 = 40000"
  by (simp add: fadd_def float32_round_large)

lemma example_iterates:
  "((\<lambda>acc. fsub acc DT_float) ^^ 6) example_frame = 0"
  "\<forall>j<6. DT_float \<le> ((\<lambda>acc. fsub acc DT_float) ^^ j) example_frame"
proof -
  let ?f = "\<lambda>acc. fsub acc DT_float"
  define a1 a2 a3 a4 a5 :: real where "a1 = 6442451 / 2 ^ 30" and "a2 = 5153961 / 2 ^ 30"
    and "a3 = 15461883 / 2 ^ 32" and "a4 = 5153961 / 2 ^ 31" and "a5 = 5153961 / 2 ^ 32"
  note d = a1_def a2_def a3_def a4_def a5_def
  have s: "fsub example_frame DT_float = a1" "fsub a1 DT_float = a2" "fsub a2 DT_float = a3"
    "fsub a3 DT_float = a4" "fsub a4 DT_float = a5" "fsub a5 DT_float = 0"
    by (simp_all only: d example_frame_def fsub_example)
  have v: "(?f ^^ 0) example_frame = example_frame" "(?f ^^ 1) example_frame = a1"
    "(?f ^^ 2) example_frame = a2" "(?f ^^ 3) example_frame = a3"
    "(?f ^^ 4) example_frame = a4" "(?f ^^ 5) example_frame = a5" "(?f ^^ 6) example_frame = 0"
    by (simp_all add: eval_nat_numeral s)
  show "(?f ^^ 6) example_frame = 0" by (rule v)
  show "\<forall>j<6. DT_float \<le> (?f ^^ j) example_frame"
  proof (intro allI impI)
    fix j :: nat assume "j < 6"
    then consider "j = 0" | "j = 1" | "j = 2" | "j = 3" | "j = 4" | "j = 5" by linarith
    then show "DT_float \<le> (?f ^^ j) example_frame"
      by cases (simp_all only: v, simp_all add: d example_frame_def DT_float_value)
  qed
qed

lemma count_substep_funpow: "(count_substep ^^ n) s = s \<lparr> substeps_run := substeps_run s + n \<rparr>"
  by (induction n) (simp_all add: count_substep_def)

text \<open>
  C4 (amended): for every non-negative \<open>deltaTime\<close> and non-negative accumulator,
  \<^item> when the system holds no particle, \<open>update\<close> returns at once: it neither adds
    \<open>deltaTime\<close> to the accumulator nor runs a substep;
  \<^item> otherwise it adds \<open>deltaTime\<close> to the accumulator in binary32 arithmetic and, when that
    sum is at most \<open>2\<^sup>1\<^sup>5 = 32768\<close>, it returns after some number \<open>k\<close> of full substep sequences,
    with no cap: \<open>k\<close> is the number of binary32 subtractions of \<open>DT = 0.0012f\<close> after which the
    accumulator is first below \<open>DT\<close> (before each of the \<open>k\<close> substeps it was at least \<open>DT\<close>),
    and the accumulator that is left is at least 0 and strictly below \<open>DT\<close>. Since every
    subtraction is rounded, \<open>k\<close> need not be \<open>floor ((accumulator + deltaTime) / DT)\<close>;
  \<^item> when the sum is above \<open>32768\<close>, subtracting \<open>DT\<close> rounds back to the same value and
    \<open>update\<close> never returns.
\<close>

theorem update_substeps:
  assumes "0 \<le> accumulatedTime s" and "0 \<le> deltaTime"
  shows "(numParticles s = 0 \<longrightarrow> update substep deltaTime s = Some s) \<and>
         (numParticles s \<noteq> 0 \<and> fadd (accumulatedTime s) deltaTime \<le> 2 ^ 15 \<longrightarrow>
            (\<exists>k. update substep deltaTime s
                   = Some ((substep ^^ k) s
                        \<lparr> accumulatedTime :=
                            ((\<lambda>acc. fsub acc DT_float) ^^ k) (fadd (accumulatedTime s) deltaTime) \<rparr>) \<and>
                 (\<forall>j<k. DT_float \<le>
                    ((\<lambda>acc. fsub acc DT_float) ^^ j) (fadd (accumulatedTime s) deltaTime)) \<and>
                 0 \<le> ((\<lambda>acc. fsub acc DT_float) ^^ k) (fadd (accumulatedTime s) deltaTime) \<and>
                 ((\<lambda>acc. fsub acc DT_float) ^^ k) (fadd (accumulatedTime s) deltaTime) < DT_float)) \<and>
         (numParticles s \<noteq> 0 \<and> 2 ^ 15 < fadd (accumulatedTime s) deltaTime \<longrightarrow>
            update substep deltaTime s = None)"
proof (intro conjI impI)
  assume "numParticles s = 0"
  then show "update substep deltaTime s = Some s" by (simp add: update_def)
next
  let ?a = "fadd (accumulatedTime s) deltaTime"
  assume h: "numParticles s \<noteq> 0 \<and> ?a \<le> 2 ^ 15"
  have "0 \<le> ?a" unfolding fadd_def using assms by (intro float32_round_nonneg) simp
  from update_loop_returns [OF this, of substep s] h obtain k where
    k: "update_loop substep ?a s = Some (((\<lambda>acc. fsub acc DT_float) ^^ k) ?a, (substep ^^ k) s)"
       "\<forall>j<k. DT_float \<le> ((\<lambda>acc. fsub acc DT_float) ^^ j) ?a"
       "0 \<le> ((\<lambda>acc. fsub acc DT_float) ^^ k) ?a"
       "((\<lambda>acc. fsub acc DT_float) ^^ k) ?a < DT_float"
    by blast
  from h k(1) have "update substep deltaTime s
      = Some ((substep ^^ k) s \<lparr> accumulatedTime := ((\<lambda>acc. fsub acc DT_float) ^^ k) ?a \<rparr>)"
    by (simp add: update_def)
  with k(2-4) show "\<exists>k. update substep deltaTime s
                   = Some ((substep ^^ k) s
                        \<lparr> accumulatedTime := ((\<lambda>acc. fsub acc DT_float) ^^ k) ?a \<rparr>) \<and>
                 (\<forall>j<k. DT_float \<le> ((\<lambda>acc. fsub acc DT_float) ^^ j) ?a) \<and>
                 0 \<le> ((\<lambda>acc. fsub acc DT_float) ^^ k) ?a \<and>
                 ((\<lambda>acc. fsub acc DT_float) ^^ k) ?a < DT_float"
    by blast
next
  let ?a = "fadd (accumulatedTime s) deltaTime"
  assume h: "numParticles s \<noteq> 0 \<and> 2 ^ 15 < ?a"
  then have big: "2 ^ 15 < float32_round (accumulatedTime s + deltaTime)" by (simp add: fadd_def)
  have "fsub ?a DT_float = ?a" unfolding fadd_def using big by (rule fsub_stuck)
  moreover have "DT_float \<le> ?a" using h by (simp add: DT_float_value)
  ultimately have "update_loop substep ?a s = None" by (rule update_loop_stuck)
  with h show "update substep deltaTime s = None" by (simp add: update_def)
qed

text \<open>
  The three cases on concrete inputs: a system without particles; one particle and the
  frame time \<open>example_frame\<close>, where six substeps run and the accumulator ends at 0; one
  particle and a frame time of 40000 seconds, where the call does not return.
\<close>

theorem update_substeps_witness:
  "(0 \<le> accumulatedTime idle \<and> (0::real) \<le> 1 / 256 \<and> numParticles idle = 0 \<and>
    update count_substep (1 / 256) idle = Some idle) \<and>
   (0 \<le> accumulatedTime running \<and> 0 \<le> example_frame \<and> numParticles running \<noteq> 0 \<and>
    fadd (accumulatedTime running) example_frame \<le> 2 ^ 15 \<and>
    update count_substep example_frame running
      = Some (running \<lparr> accumulatedTime := 0, substeps_run := 6 \<rparr>)) \<and>
   (0 \<le> accumulatedTime running \<and> (0::real) \<le> 40000 \<and> numParticles running \<noteq> 0 \<and>
    2 ^ 15 < fadd (accumulatedTime running) 40000 \<and>
    update count_substep 40000 running = None)"
proof -
  let ?f = "\<lambda>acc. fsub acc DT_float"
  let ?a = "example_frame"
  have acc: "accumulatedTime idle = 0" "accumulatedTime running = 0"
    and num: "numParticles idle = 0" "numParticles running \<noteq> 0"
    by (simp_all add: idle_def running_def)
  have A: "update count_substep (1 / 256) idle = Some idle"
    using update_substeps [of idle "1 / 256" count_substep] by (simp add: acc num)
  have e: "0 \<le> example_frame" "example_frame \<le> 2 ^ 15" by (simp_all add: example_frame_def)
  from update_substeps [of running ?a count_substep]
  have "\<exists>k. update count_substep ?a running
        = Some ((count_substep ^^ k) running \<lparr> accumulatedTime := (?f ^^ k) ?a \<rparr>) \<and>
      (\<forall>j<k. DT_float \<le> (?f ^^ j) ?a) \<and> 0 \<le> (?f ^^ k) ?a \<and> (?f ^^ k) ?a < DT_float"
    using e by (simp add: acc num fadd_example)
  then obtain k where k: "update count_substep ?a running
        = Some ((count_substep ^^ k) running \<lparr> accumulatedTime := (?f ^^ k) ?a \<rparr>)"
      "\<forall>j<k. DT_float \<le> (?f ^^ j) ?a" "(?f ^^ k) ?a < DT_float"
    by blast
  have "(?f ^^ 6) ?a < DT_float" by (simp only: example_iterates) (simp add: DT_float_value)
  with k(2,3) example_iterates(2) have "k = 6" by (rule first_below_unique)
  with k(1) have B: "update count_substep ?a running
      = Some (running \<lparr> accumulatedTime := 0, substeps_run := 6 \<rparr>)"
    by (simp only: example_iterates count_substep_funpow) (simp add: running_def idle_def)
  have C: "update count_substep 40000 running = None"
    using update_substeps [of running 40000 count_substep] by (simp add: acc num fadd_large)
  from A B C e show ?thesis by (simp add: acc num fadd_example fadd_large)
qed

lemma update_run_example:
  "update count_substep example_frame running
     = Some (running \<lparr> accumulatedTime := 0, substeps_run := 6 \<rparr>)"
proof -
  let ?f = "\<lambda>acc. fsub acc DT_float"
  let ?a = "example_frame"
  have "(?f ^^ 6) ?a < DT_float" by (simp only: example_iterates) (simp add: DT_float_value)
  with example_iterates(2)
  have "update_loop count_substep ?a running = Some ((?f ^^ 6) ?a, (count_substep ^^ 6) running)"
    by (rule update_loop_run)
  then have "update_loop count_substep ?a running = Some (0, running \<lparr> substeps_run := 6 \<rparr>)"
    by (simp only: example_iterates count_substep_funpow) (simp add: running_def idle_def)
  then show ?thesis by (simp add: update_def running_def idle_def fadd_example)
qed

lemma update_stuck_example: "update count_substep 40000 running = None"
proof -
  have "fsub (float32_round 40000) DT_float = float32_round 40000"
    by (rule fsub_stuck) (simp add: float32_round_large)
  then have "fsub 40000 DT_float = 40000" by (simp only: float32_round_large)
  moreover have "DT_float \<le> 40000" by (simp add: DT_float_value)
  ultimately have "update_loop count_substep 40000 running = None" by (rule update_loop_stuck)
  then show ?thesis by (simp add: update_def running_def idle_def fadd_large)
qed

text \<open>
  C4, as stated, fails on each of three inputs. On a system without particles and
  \<open>deltaTime = 1/256\<close> the claim asks for three substeps; \<open>update\<close> returns the state unchanged.
  With one particle and \<open>deltaTime = example_frame\<close> the quotient
  \<open>(accumulator + deltaTime) / fixedStep\<close> has floor 5, whether the fixed step is read as
  0.0012 or as its binary32 value, and \<open>update\<close> runs six substeps: two of the subtractions
  are rounded upwards. With \<open>deltaTime = 40000\<close> the claim asks for a result; \<open>update\<close> does not
  return.
\<close>

theorem update_counterexample:
  "update count_substep (1 / 256) idle = Some idle \<and>
   \<lfloor>(accumulatedTime idle + 1 / 256) / DT\<rfloor> = 3 \<and>
   \<lfloor>(accumulatedTime idle + 1 / 256) / DT_float\<rfloor> = 3 \<and>
   update count_substep example_frame running
     = Some (running \<lparr> accumulatedTime := 0, substeps_run := 6 \<rparr>) \<and>
   \<lfloor>(accumulatedTime running + example_frame) / DT\<rfloor> = 5 \<and>
   \<lfloor>(accumulatedTime running + example_frame) / DT_float\<rfloor> = 5 \<and>
   update count_substep 40000 running = None"
proof -
  have "update count_substep (1 / 256) idle = Some idle" by (simp add: update_def idle_def)
  with update_run_example update_stuck_example show ?thesis
    by (simp add: idle_def running_def DT_def DT_float_value example_frame_def)
qed

section \<open>Pass 1: walls and the impulse request\<close>

lemma wall_axis_cases:
  assumes "lo \<le> hi"
  shows "wall_axis lo hi (v, p) =
           (if p < lo then (v * (- wallDamping), lo)
            else if p > hi then (v * (- wallDamping), hi) else (v, p))"
  using assms by (simp add: wall_axis_def Let_def)

text \<open>
  C5 (amended): the walls of pass 1 are the faces of the domain moved inwards by
  \<open>SAFE_BOUNDS = 0.5\<close>. On each axis along which the domain is at least 1 wide, a new
  position below \<open>origin + 0.5\<close> or above \<open>origin + size - 0.5\<close> has that axis of the velocity
  multiplied by \<open>-0.5\<close> and that axis of the position set exactly to that inset wall; a new
  position between the inset walls leaves both as integrated.
\<close>

theorem wall_reflection:
  assumes sel: "sel \<in> {vx, vy, vz}" and ext: "1 \<le> sel (uGridSize u)"
  shows "(sel (step1_newPos u p) < sel (uGridOrigin u) + 0.5 \<longrightarrow>
            sel (velocity (step1_integrate u p)) = sel (step1_newVelo u p) * (- 0.5) \<and>
            sel (position (step1_integrate u p)) = sel (uGridOrigin u) + 0.5) \<and>
         (sel (step1_newPos u p) > sel (uGridOrigin u) + sel (uGridSize u) - 0.5 \<longrightarrow>
            sel (velocity (step1_integrate u p)) = sel (step1_newVelo u p) * (- 0.5) \<and>
            sel (position (step1_integrate u p)) = sel (uGridOrigin u) + sel (uGridSize u) - 0.5) \<and>
         (sel (uGridOrigin u) + 0.5 \<le> sel (step1_newPos u p) \<and>
          sel (step1_newPos u p) \<le> sel (uGridOrigin u) + sel (uGridSize u) - 0.5 \<longrightarrow>
            sel (velocity (step1_integrate u p)) = sel (step1_newVelo u p) \<and>
            sel (position (step1_integrate u p)) = sel (step1_newPos u p))"
proof -
  have lo: "sel (boundsL u) = sel (uGridOrigin u) + 0.5"
    using sel by (auto simp: boundsL_def vadds_def SAFE_BOUNDS_def)
  have hi: "sel (boundsH u) = sel (uGridOrigin u) + sel (uGridSize u) - 0.5"
    using sel by (auto simp: boundsH_def vadds_def SAFE_BOUNDS_def plus_gvec3_def)
  have le: "sel (boundsL u) \<le> sel (boundsH u)" using ext lo hi by simp
  have v: "sel (velocity (step1_integrate u p)) =
             fst (wall_axis (sel (boundsL u)) (sel (boundsH u)) (sel (step1_newVelo u p), sel (step1_newPos u p)))"
    using sel by (auto simp: step1_integrate_def Let_def)
  have q: "sel (position (step1_integrate u p)) =
             snd (wall_axis (sel (boundsL u)) (sel (boundsH u)) (sel (step1_newVelo u p), sel (step1_newPos u p)))"
    using sel by (auto simp: step1_integrate_def Let_def)
  show ?thesis
    unfolding v q wall_axis_cases [OF le] using le
    by (simp add: lo hi wallDamping_def)
qed

theorem wall_reflection_witness:
  "vx \<in> {vx, vy, vz} \<and> 1 \<le> vx (uGridSize calm10) \<and>
   vx (step1_newPos calm10 (moving (Vec3 0.5 5 8) (Vec3 (-1) 0 0))) < vx (uGridOrigin calm10) + 0.5 \<and>
   vx (velocity (step1_integrate calm10 (moving (Vec3 0.5 5 8) (Vec3 (-1) 0 0)))) = 0.5 \<and>
   vx (position (step1_integrate calm10 (moving (Vec3 0.5 5 8) (Vec3 (-1) 0 0)))) = 0.5"
  using wall_reflection [of vx calm10 "moving (Vec3 0.5 5 8) (Vec3 (-1) 0 0)"]
  by (simp add: calm10_def box10_def moving_def step1_newPos_def step1_newVelo_def
        plus_gvec3_def vscale_def DT_def)

text \<open>
  C5, as stated: a particle whose new position is below the domain's min coordinate 0 on
  the x axis is not placed on that coordinate but at 0.5.
\<close>

theorem wall_clamp_counterexample:
  "vx (step1_newPos calm10 (moving (Vec3 0.0001 5 8) (Vec3 (-1) 0 0))) < vx (uGridOrigin calm10) \<and>
   vx (uGridOrigin calm10) = 0 \<and>
   vx (position (step1_integrate calm10 (moving (Vec3 0.0001 5 8) (Vec3 (-1) 0 0)))) = 0.5"
  by (simp add: calm10_def box10_def moving_def step1_newPos_def step1_newVelo_def
        step1_integrate_def wall_axis_def boundsL_def boundsH_def vadds_def SAFE_BOUNDS_def
        plus_gvec3_def vscale_def DT_def Let_def)

lemma impulseStrength_props:
  assumes R: "0 < R"
  shows "impulseStrength R 0 = 1" "impulseStrength R R = 0"
    "0 \<le> d1 \<Longrightarrow> d1 \<le> d2 \<Longrightarrow> d2 \<le> R \<Longrightarrow> impulseStrength R d2 \<le> impulseStrength R d1"
proof -
  show "impulseStrength R 0 = 1" by (simp add: impulseStrength_def)
  show "impulseStrength R R = 0" using R by (simp add: impulseStrength_def)
  assume a: "0 \<le> d1" "d1 \<le> d2" "d2 \<le> R"
  have "d1 / R \<le> d2 / R" using a R by (simp add: divide_right_mono)
  moreover have "d2 / R \<le> 1" using a R by simp
  ultimately have "0 \<le> 1 - d2 / R" "1 - d2 / R \<le> 1 - d1 / R" by simp_all
  then have "(1 - d2 / R) * (1 - d2 / R) \<le> (1 - d1 / R) * (1 - d1 / R)"
    by (intro mult_mono) simp_all
  then show "impulseStrength R d2 \<le> impulseStrength R d1"
    by (simp add: impulseStrength_def Let_def)
qed

text \<open>
  C6 (amended): while the request is active, a particle whose distance \<open>d\<close> from the request
  centre satisfies \<open>0.001 < d \<le> radius\<close> receives \<open>impulse * (1 - d / radius)\<^sup>2 * dt\<close> on top of
  gravity; the factor is below 1, does not increase with distance and is zero at the radius.
  A particle at distance at most 0.001, or beyond the radius, receives no impulse.
\<close>

theorem impulse_quadratic_falloff:
  assumes act: "uSphereActive u \<noteq> 0"
  shows "(0.001 < vlength (uSpherePosition u - position p) \<and>
          vlength (uSpherePosition u - position p) \<le> uSphereRadius u \<longrightarrow>
            step1_newVelo u p =
              velocity p + vscale (uGravity u) (uDT u) +
              vscale (vscale (uSphereImpulse u)
                        (impulseStrength (uSphereRadius u) (vlength (uSpherePosition u - position p))))
                     (uDT u) \<and>
            impulseStrength (uSphereRadius u) (vlength (uSpherePosition u - position p))
              = (1 - vlength (uSpherePosition u - position p) / uSphereRadius u)\<^sup>2 \<and>
            impulseStrength (uSphereRadius u) (vlength (uSpherePosition u - position p)) < 1 \<and>
            impulseStrength (uSphereRadius u) (uSphereRadius u) = 0) \<and>
         (vlength (uSpherePosition u - position p) \<le> 0.001 \<or>
          uSphereRadius u < vlength (uSpherePosition u - position p) \<longrightarrow>
            step1_newVelo u p = velocity p + vscale (uGravity u) (uDT u)) \<and>
         (\<forall>d1 d2. 0 \<le> d1 \<and> d1 \<le> d2 \<and> d2 \<le> uSphereRadius u \<longrightarrow>
            impulseStrength (uSphereRadius u) d2 \<le> impulseStrength (uSphereRadius u) d1)"
proof -
  let ?d = "vlength (uSpherePosition u - position p)"
  let ?R = "uSphereRadius u"
  have far: "?d \<le> 0.001 \<or> ?R < ?d \<Longrightarrow> step1_newVelo u p = velocity p + vscale (uGravity u) (uDT u)"
    using act by (auto simp: step1_newVelo_def Let_def)
  have mono: "\<forall>d1 d2. 0 \<le> d1 \<and> d1 \<le> d2 \<and> d2 \<le> ?R \<longrightarrow>
            impulseStrength ?R d2 \<le> impulseStrength ?R d1"
  proof (intro allI impI)
    fix d1 d2 :: real assume a: "0 \<le> d1 \<and> d1 \<le> d2 \<and> d2 \<le> ?R"
    show "impulseStrength ?R d2 \<le> impulseStrength ?R d1"
    proof (cases "0 < ?R")
      case True
      then show ?thesis using a impulseStrength_props(3) by blast
    next
      case False
      with a have "d1 = 0" "d2 = 0" by simp_all
      then show ?thesis by simp
    qed
  qed
  have near: "step1_newVelo u p =
              velocity p + vscale (uGravity u) (uDT u) +
              vscale (vscale (uSphereImpulse u) (impulseStrength ?R ?d)) (uDT u) \<and>
            impulseStrength ?R ?d = (1 - ?d / ?R)\<^sup>2 \<and>
            impulseStrength ?R ?d < 1 \<and> impulseStrength ?R ?R = 0"
    if h: "0.001 < ?d \<and> ?d \<le> ?R"
  proof -
    have R: "0 < ?R" using h by simp
    have d0: "0 < ?d" using h by simp
    have q: "0 < ?d / ?R" "?d / ?R \<le> 1" using R d0 h by simp_all
    then have "(1 - ?d / ?R) * (1 - ?d / ?R) < 1 * 1"
      by (intro mult_strict_mono') simp_all
    then have lt: "impulseStrength ?R ?d < 1" by (simp add: impulseStrength_def Let_def)
    show ?thesis
      using act h lt impulseStrength_props(2) [OF R]
      by (simp add: step1_newVelo_def Let_def) (simp add: impulseStrength_def power2_eq_square Let_def)
  qed
  show ?thesis using far mono near by blast
qed

theorem impulse_quadratic_falloff_witness:
  "uSphereActive box10 \<noteq> 0 \<and>
   vlength (uSpherePosition box10 - position (at_rest (Vec3 5 4 5))) = 1 \<and>
   step1_newVelo box10 (at_rest (Vec3 5 4 5)) = Vec3 0 0.003 0 \<and>
   vlength (uSpherePosition box10 - position (at_rest (Vec3 5 8 5))) = 3 \<and>
   step1_newVelo box10 (at_rest (Vec3 5 8 5)) = Vec3 0 0 0"
  using impulse_quadratic_falloff [of box10 "at_rest (Vec3 5 4 5)"]
        impulse_quadratic_falloff [of box10 "at_rest (Vec3 5 8 5)"]
  by (simp add: box10_def at_rest_def vlength_def minus_gvec3_def plus_gvec3_def vscale_def
        impulseStrength_def DT_def)

text \<open>
  C6, as stated: a particle at the request centre (distance 0, inside the radius 2)
  receives nothing, where full strength would add \<open>impulse * dt = (0, 0.012, 0)\<close>.
\<close>

theorem impulse_center_counterexample:
  "uSphereActive box10 \<noteq> 0 \<and>
   vlength (uSpherePosition box10 - position (at_rest (Vec3 5 5 5))) = 0 \<and>
   step1_newVelo box10 (at_rest (Vec3 5 5 5)) = Vec3 0 0 0 \<and>
   velocity (at_rest (Vec3 5 5 5)) + vscale (uGravity box10) (uDT box10)
     + vscale (vscale (uSphereImpulse box10) 1) (uDT box10) = Vec3 0 0.012 0"
  by (simp add: box10_def at_rest_def step1_newVelo_def vlength_def minus_gvec3_def
        plus_gvec3_def vscale_def DT_def)

section \<open>Density pass\<close>

lemma stencil_walk_hom:
  fixes h :: "'b \<Rightarrow> 'c"
  assumes hom: "\<And>j a. h (b2 j a) = b1 j (h a)"
  shows "h (stencil_walk g r v b2 vc pc off a) = stencil_walk g r v b1 vc pc off (h a)"
proof -
  fix d :: 'b
  have "\<forall>a. h (stencil_walk g r v b2 vc pc off a) = stencil_walk g r v b1 vc pc off (h a)"
    using hom
  proof (induction g r v b2 vc pc off d rule: stencil_walk.induct)
    case (1 grid gridRes voxelId body voxelCount voxelParticleCount voxelParticleOffset acc)
    show ?case
    proof
      fix a
      note L = stencil_walk.simps [of grid gridRes voxelId body voxelCount voxelParticleCount voxelParticleOffset a]
      note R = stencil_walk.simps [of grid gridRes voxelId b1 voxelCount voxelParticleCount voxelParticleOffset "h a"]
      show "h (stencil_walk grid gridRes voxelId body voxelCount voxelParticleCount voxelParticleOffset a) =
            stencil_walk grid gridRes voxelId b1 voxelCount voxelParticleCount voxelParticleOffset (h a)"
        unfolding L R using 1 by (simp add: Let_def)
    qed
  qed
  then show ?thesis by simp
qed

lemma stencil_walk_fold:
  "stencil_walk g r v body 0 0 0 acc = fold body (candidates g r v) acc"
proof -
  have "(\<lambda>ys. fold body ys acc) (stencil_walk g r v (\<lambda>j visited. visited @ [j]) 0 0 0 [])
        = stencil_walk g r v body 0 0 0 ((\<lambda>ys. fold body ys acc) [])"
    by (rule stencil_walk_hom) simp
  then show ?thesis by (simp add: candidates_def)
qed


lemma cands2: "candidates grid2 (Vec3 2 1 1) (Vec3 0 0 0) = [0, 1]"
  by (simp add: candidates_def stencil_walk.simps NEIGHBORHOOD_LUT_def outside_grid_def
        plus_gvec3_def imageLoad_def in_image_def cell_count_def cell_offset_def grid2_def)



lemma dist0: "vlength (position (two_apart ! 0) - position (ssbo_read two_apart 0)) = 0"
  by (simp add: two_apart_def at_rest_def ssbo_read_def vlength_def minus_gvec3_def)

section \<open>Force pass\<close>

lemma force_body_skip:
  assumes "otherParticleId = particleId \<or>
           vlength (position particle - position (ssbo_read particles otherParticleId)) \<le> 0.0001"
  shows "force_body particles particleId particle otherParticleId (Inr acc) = Inr acc"
  using assms by (cases acc) (auto simp: force_body_def Let_def)

lemma force_body_no_distance_error:
  assumes "acc \<noteq> Inl DivByZeroDistance"
  shows "force_body particles particleId particle otherParticleId acc \<noteq> Inl DivByZeroDistance"
  using assms
  by (auto simp: force_body_def Let_def checked_vdiv_def split: sum.splits prod.splits if_splits)

lemma fold_force_body_no_distance_error:
  assumes "acc \<noteq> Inl DivByZeroDistance"
  shows "fold (force_body particles particleId particle) js acc \<noteq> Inl DivByZeroDistance"
  using assms
  by (induction js arbitrary: acc) (simp_all add: force_body_no_distance_error)

text \<open>
  C9: in the force pass a neighbour that is the particle itself, or that lies within the
  minimum distance 0.0001, leaves both force accumulators unchanged; so two particles at the
  same position add nothing to each other's forces. The division by the inter-particle
  distance is never a division by zero, neither for one neighbour nor over the whole
  neighbour loop.
\<close>

theorem coincident_zero_force:
  "(otherParticleId = particleId \<or>
    vlength (position particle - position (ssbo_read particles otherParticleId)) \<le> 0.0001 \<longrightarrow>
      force_body particles particleId particle otherParticleId (Inr acc) = Inr acc) \<and>
   (i < length particles \<and> j < length particles \<and> position (particles ! i) = position (particles ! j) \<longrightarrow>
      force_body particles i (particles ! i) j (Inr acc) = Inr acc \<and>
      force_body particles j (particles ! j) i (Inr acc) = Inr acc) \<and>
   force_body particles particleId particle otherParticleId (Inr acc) \<noteq> Inl DivByZeroDistance \<and>
   step6_forces grid u particles particleId particle \<noteq> Inl DivByZeroDistance"
proof -
  have z: "vlength (v - v) = 0" for v :: vec3
    by (simp add: vlength_def minus_gvec3_def)
  have pair: "force_body particles i (particles ! i) j (Inr acc) = Inr acc \<and>
              force_body particles j (particles ! j) i (Inr acc) = Inr acc"
    if "i < length particles \<and> j < length particles \<and> position (particles ! i) = position (particles ! j)"
    using that by (intro conjI force_body_skip) (simp_all add: ssbo_read_def z)
  have walk: "step6_forces grid u particles particleId particle \<noteq> Inl DivByZeroDistance"
    unfolding step6_forces_def stencil_walk_fold
    by (rule fold_force_body_no_distance_error) simp
  show ?thesis
    using force_body_skip [of otherParticleId particleId particle particles acc] pair walk
      force_body_no_distance_error [of "Inr acc" particles particleId particle otherParticleId]
    by blast
qed

lemma cands1: "candidates grid1 (Vec3 1 1 1) (Vec3 0 0 0) = [1, 0]"
  by (simp add: candidates_def stencil_walk.simps NEIGHBORHOOD_LUT_def outside_grid_def
        plus_gvec3_def imageLoad_def in_image_def cell_count_def cell_offset_def grid1_def)

theorem coincident_zero_force_witness:
  "0 < length coincident \<and> 1 < length coincident \<and>
   position (coincident ! 0) = position (coincident ! 1) \<and>
   vlength (position (coincident ! 0) - position (ssbo_read coincident 1)) \<le> 0.0001 \<and>
   force_body coincident 0 (coincident ! 0) 1 (Inr (Vec3 0 0 0, Vec3 0 0 0)) = Inr (Vec3 0 0 0, Vec3 0 0 0) \<and>
   force_body coincident 1 (coincident ! 1) 0 (Inr (Vec3 0 0 0, Vec3 0 0 0)) = Inr (Vec3 0 0 0, Vec3 0 0 0) \<and>
   step6_forces grid1 u1 coincident 0 (coincident ! 0) \<noteq> Inl DivByZeroDistance"
  using coincident_zero_force [of 1 0 "coincident ! 0" coincident "(Vec3 0 0 0, Vec3 0 0 0)" 0 1 grid1 u1]
  by (simp add: coincident_def at_rest_def ssbo_read_def vlength_def minus_gvec3_def)

lemma step6_coincident_value:
  "step6_forces grid1 u1 coincident 0 (coincident ! 0) = Inr (Vec3 0 0 0, Vec3 0 0 0)"
proof -
  have v: "voxelCoord (gInvCellSize u1) (gGridOrigin u1) (position (coincident ! 0)) = Vec3 0 0 0"
    by (simp add: voxelCoord_def u1_def coincident_def at_rest_def to_ivec3_def trunc_def vmul_def minus_gvec3_def)
  have r: "gGridRes u1 = Vec3 1 1 1" by (simp add: u1_def)
  show ?thesis
    unfolding step6_forces_def stencil_walk_fold v r cands1
    by (simp add: force_body_def coincident_def at_rest_def ssbo_read_def vlength_def minus_gvec3_def)
qed

section \<open>Pass 2: offsets\<close>

lemma cell_count_unat: "cell_count w = unat w mod 256"
proof -
  have "(0xFF :: uint) = mask 8" by (simp add: mask_eq_exp_minus_1)
  then have "w AND 0xFF = take_bit 8 w" by (simp add: take_bit_eq_mask)
  then show ?thesis by (simp add: cell_count_def unsigned_take_bit_eq take_bit_eq_mod unat_mod)
qed

lemma cell_offset_unat: "cell_offset w = unat w div 256"
  by (simp add: cell_offset_def unat_drop_bit_eq drop_bit_eq_div unat_div)

lemma unat_cell_word:
  assumes "s < 2 ^ 24" "k < 256"
  shows "unat (push_bit 8 (of_nat s) + of_nat k :: uint) = s * 256 + k"
proof -
  have e: "(push_bit 8 (of_nat s) + of_nat k :: uint) = of_nat (s * 256 + k)"
    by (simp add: push_bit_eq_mult)
  have "s * 256 + k < 2 ^ 32" using assms by simp
  then show ?thesis unfolding e unat_of_nat by simp
qed

lemma cell_fields:
  assumes "s < 2 ^ 24" "k < 256"
  shows "cell_offset (push_bit 8 (of_nat s) + of_nat k) = s"
    and "cell_count (push_bit 8 (of_nat s) + of_nat k) = k"
  using assms by (simp_all add: cell_offset_unat cell_count_unat unat_cell_word)

lemma cell_count_push_bit: "cell_count (push_bit 8 w) = 0"
proof -
  have "unat (push_bit 8 w) = take_bit 32 (push_bit 8 (unat w))"
    by (simp add: unsigned_push_bit_eq)
  also have "\<dots> = push_bit 8 (take_bit 24 (unat w))" by (simp add: take_bit_push_bit)
  finally show ?thesis by (simp add: cell_count_unat push_bit_eq_mult)
qed

lemma cell_offset_push_bit: "unat w < 2 ^ 24 \<Longrightarrow> cell_offset (push_bit 8 w) = unat w"
proof -
  assume a: "unat w < 2 ^ 24"
  have "unat (push_bit 8 w) = take_bit 32 (push_bit 8 (unat w))"
    by (simp add: unsigned_push_bit_eq)
  also have "\<dots> = push_bit 8 (take_bit 24 (unat w))" by (simp add: take_bit_push_bit)
  also have "take_bit 24 (unat w) = unat w" using a by (simp add: take_bit_nat_eq_self)
  finally show ?thesis by (simp add: cell_offset_unat push_bit_eq_mult)
qed

lemma in_image_imageStore [simp]: "in_image (imageStore g v w) c = in_image g c"
  by (simp add: imageStore_def in_image_def)

lemma imageSize_imageStore [simp]: "imageSize (imageStore g v w) = imageSize g"
  by (simp add: imageStore_def)

lemma texels_imageStore:
  "texels (imageStore g v w) c = (if c = v \<and> in_image g v then w else texels g c)"
  by (simp add: imageStore_def)

lemma map_fst_reserve_local: "map fst (fst (reserve_local g acc cs)) = cs"
  by (induction cs arbitrary: acc) (simp_all add: Let_def)

lemma snd_reserve_local: "snd (reserve_local g acc cs) = acc + sum_list (map (imageLoad g) cs)"
  by (induction cs arbitrary: acc) (simp_all add: Let_def add.assoc)

lemma reserve_local_member:
  "c \<in> set cs \<Longrightarrow>
   (c, acc + sum_list (map (imageLoad g) (scheduled_before c cs))) \<in> set (fst (reserve_local g acc cs))"
proof (induction cs arbitrary: acc)
  case Nil
  then show ?case by simp
next
  case (Cons x xs)
  show ?case
  proof (cases "x = c")
    case True
    then show ?thesis by (simp add: scheduled_before_def Let_def)
  next
    case False
    with Cons.prems have "c \<in> set xs" by simp
    from Cons.IH [OF this, of "acc + imageLoad g x"] False
    show ?thesis by (simp add: scheduled_before_def Let_def add.assoc)
  qed
qed

lemma imageSize_store_offsets [simp]: "imageSize (store_offsets base offs g) = imageSize g"
  by (induction offs arbitrary: g) (simp_all add: store_offsets_def split_beta)

lemma in_image_store_offsets [simp]: "in_image (store_offsets base offs g) c = in_image g c"
  by (simp add: in_image_def)

lemma store_offsets_other:
  "c \<notin> fst ` set offs \<Longrightarrow> texels (store_offsets base offs g) c = texels g c"
proof (induction offs arbitrary: g)
  case Nil
  then show ?case by (simp add: store_offsets_def)
next
  case (Cons a offs)
  have "texels (store_offsets base offs (imageStore g (fst a) (push_bit 8 (base + snd a)))) c
        = texels (imageStore g (fst a) (push_bit 8 (base + snd a))) c"
    using Cons by simp
  with Cons.prems show ?case
    by (simp add: store_offsets_def split_beta texels_imageStore)
qed

lemma store_offsets_member:
  "distinct (map fst offs) \<Longrightarrow> (c, off) \<in> set offs \<Longrightarrow> in_image g c \<Longrightarrow>
   texels (store_offsets base offs g) c = push_bit 8 (base + off)"
proof (induction offs arbitrary: g)
  case Nil
  then show ?case by simp
next
  case (Cons a offs)
  let ?g1 = "imageStore g (fst a) (push_bit 8 (base + snd a))"
  have unf: "store_offsets base (a # offs) g = store_offsets base offs ?g1"
    by (simp add: store_offsets_def split_beta)
  show ?case
  proof (cases "a = (c, off)")
    case True
    with Cons.prems have "c \<notin> fst ` set offs" by auto
    then have "texels (store_offsets base offs ?g1) c = texels ?g1 c"
      by (rule store_offsets_other)
    with True Cons.prems show ?thesis unfolding unf by (simp add: texels_imageStore)
  next
    case False
    with Cons.prems have m: "(c, off) \<in> set offs" and d: "distinct (map fst offs)" by auto
    from Cons.IH [OF d m, of ?g1] Cons.prems show ?thesis unfolding unf by simp
  qed
qed

lemma step2_group_eq:
  "step2_group cs (ctr, g) =
     (ctr + sum_list (map (imageLoad g) cs), store_offsets ctr (fst (reserve_local g 0 cs)) g)"
  by (simp add: step2_group_def Let_def snd_reserve_local)

lemma step2_group_other:
  "c \<notin> set cs \<Longrightarrow> texels (snd (step2_group cs (ctr, g))) c = texels g c"
proof -
  assume "c \<notin> set cs"
  then have "c \<notin> fst ` set (fst (reserve_local g 0 cs))"
    using map_fst_reserve_local [of g 0 cs] by (metis set_map)
  then show ?thesis by (simp add: step2_group_eq store_offsets_other)
qed

lemma step2_group_member:
  assumes "distinct cs" "c \<in> set cs" "in_image g c"
  shows "texels (snd (step2_group cs (ctr, g))) c
         = push_bit 8 (ctr + sum_list (map (imageLoad g) (scheduled_before c cs)))"
proof -
  have d: "distinct (map fst (fst (reserve_local g 0 cs)))"
    using assms(1) by (simp add: map_fst_reserve_local)
  have m: "(c, 0 + sum_list (map (imageLoad g) (scheduled_before c cs)))
           \<in> set (fst (reserve_local g 0 cs))"
    using assms(2) by (rule reserve_local_member)
  show ?thesis
    using store_offsets_member [OF d m assms(3), of ctr] by (simp add: step2_group_eq)
qed

lemma imageSize_step2_group [simp]: "imageSize (snd (step2_group cs (ctr, g))) = imageSize g"
  by (simp add: step2_group_eq)

lemma imageLoad_cong: "imageSize g' = imageSize g \<Longrightarrow> texels g' c = texels g c \<Longrightarrow> imageLoad g' c = imageLoad g c"
  by (simp add: imageLoad_def in_image_def)

lemma fold_step2_group:
  assumes "distinct (concat sched)"
  shows "fst (fold step2_group sched (ctr, g)) = ctr + sum_list (map (imageLoad g) (concat sched)) \<and>
         imageSize (snd (fold step2_group sched (ctr, g))) = imageSize g \<and>
         (\<forall>c. c \<notin> set (concat sched) \<longrightarrow> texels (snd (fold step2_group sched (ctr, g))) c = texels g c) \<and>
         (\<forall>c. c \<in> set (concat sched) \<and> in_image g c \<longrightarrow>
              texels (snd (fold step2_group sched (ctr, g))) c
              = push_bit 8 (ctr + sum_list (map (imageLoad g) (scheduled_before c (concat sched)))))"
  using assms
proof (induction sched arbitrary: ctr g)
  case Nil
  then show ?case by simp
next
  case (Cons grp rest)
  let ?g1 = "snd (step2_group grp (ctr, g))"
  let ?c1 = "ctr + sum_list (map (imageLoad g) grp)"
  have st: "step2_group grp (ctr, g) = (?c1, ?g1)" by (simp add: step2_group_eq)
  have dg: "distinct grp" and dr: "distinct (concat rest)"
    and disj: "set grp \<inter> set (concat rest) = {}"
    using Cons.prems by auto
  note IH = Cons.IH [OF dr, of ?c1 ?g1]
  have sz: "imageSize ?g1 = imageSize g" by simp
  have same: "imageLoad ?g1 c = imageLoad g c" if "c \<notin> set grp" for c
    using that by (intro imageLoad_cong sz step2_group_other)
  have loads: "map (imageLoad ?g1) xs = map (imageLoad g) xs" if "set xs \<inter> set grp = {}" for xs
    using that same by (intro map_cong) auto
  have l1: "map (imageLoad ?g1) (concat rest) = map (imageLoad g) (concat rest)"
    using disj by (intro loads) auto
  have inim: "in_image ?g1 c = in_image g c" for c by (simp add: in_image_def)
  have unf: "fold step2_group (grp # rest) (ctr, g) = fold step2_group rest (?c1, ?g1)"
    by (subst st [symmetric]) simp
  have A: "fst (fold step2_group rest (?c1, ?g1)) = ctr + sum_list (map (imageLoad g) (concat (grp # rest)))"
    using IH l1 by (simp add: add.assoc)
  have B: "imageSize (snd (fold step2_group rest (?c1, ?g1))) = imageSize g"
    using IH by simp
  have C: "texels (snd (fold step2_group rest (?c1, ?g1))) c = texels g c"
    if "c \<notin> set (concat (grp # rest))" for c
    using that IH step2_group_other [of c grp ctr g] by simp
  have D: "texels (snd (fold step2_group rest (?c1, ?g1))) c
              = push_bit 8 (ctr + sum_list (map (imageLoad g) (scheduled_before c (concat (grp # rest)))))"
    if h: "c \<in> set (concat (grp # rest)) \<and> in_image g c" for c
  proof (cases "c \<in> set grp")
    case True
    then have "c \<notin> set (concat rest)" using disj by auto
    then have "texels (snd (fold step2_group rest (?c1, ?g1))) c = texels ?g1 c"
      using IH by blast
    moreover have "scheduled_before c (concat (grp # rest)) = scheduled_before c grp"
      using True by (simp add: scheduled_before_def takeWhile_append1)
    ultimately show ?thesis
      using step2_group_member [OF dg True, of g ctr] h by simp
  next
    case False
    then have m: "c \<in> set (concat rest)" using h by auto
    have sb: "scheduled_before c (grp @ concat rest) = grp @ scheduled_before c (concat rest)"
    proof -
      have "\<And>x. x \<in> set grp \<Longrightarrow> x \<noteq> c" using False by auto
      then have "takeWhile (\<lambda>x. x \<noteq> c) (grp @ concat rest)
                 = grp @ takeWhile (\<lambda>x. x \<noteq> c) (concat rest)"
        by (rule takeWhile_append2)
      then show ?thesis by (simp add: scheduled_before_def)
    qed
    have "set (scheduled_before c (concat rest)) \<subseteq> set (concat rest)"
      unfolding scheduled_before_def by (meson set_takeWhileD subsetI)
    then have "set (scheduled_before c (concat rest)) \<inter> set grp = {}" using disj by auto
    then have l2: "map (imageLoad ?g1) (scheduled_before c (concat rest))
                 = map (imageLoad g) (scheduled_before c (concat rest))" by (rule loads)
    have "texels (snd (fold step2_group rest (?c1, ?g1))) c
          = push_bit 8 (?c1 + sum_list (map (imageLoad ?g1) (scheduled_before c (concat rest))))"
      using IH m h inim by blast
    then show ?thesis by (simp add: sb l2 add.assoc)
  qed
  show ?case unfolding unf using A B C D by blast
qed

lemma in_work_groups:
  "w \<in> set (work_groups d) \<longleftrightarrow>
     0 \<le> vx w \<and> vx w \<le> (vx d + 3) div 4 - 1 \<and>
     0 \<le> vy w \<and> vy w \<le> (vy d + 3) div 4 - 1 \<and>
     0 \<le> vz w \<and> vz w \<le> (vz d + 3) div 4 - 1"
  by (cases w) (force simp: work_groups_def)

lemma in_workgroup_invocations:
  "v \<in> set (workgroup_invocations w) \<longleftrightarrow>
     (\<exists>lx\<in>{0..3}. \<exists>ly\<in>{0..3}. \<exists>lz\<in>{0..3}. v = Vec3 (4 * vx w + lx) (4 * vy w + ly) (4 * vz w + lz))"
  by (auto simp: workgroup_invocations_def)

lemma group_index_bound:
  "0 \<le> (a::int) \<Longrightarrow> a < d \<Longrightarrow> 0 \<le> a div 4 \<and> a div 4 \<le> (d + 3) div 4 - 1"
  by presburger

lemma local_index: "4 * ((a::int) div 4) + a mod 4 = a" "0 \<le> a mod 4" "a mod 4 \<le> 3"
  by presburger+

lemma in_image_dispatched:
  assumes "in_image g c"
  shows "c \<in> set (concat (map workgroup_invocations (work_groups (imageSize g))))"
proof -
  let ?w = "Vec3 (vx c div 4) (vy c div 4) (vz c div 4)"
  have x: "0 \<le> vx c" "vx c < vx (imageSize g)" and y: "0 \<le> vy c" "vy c < vy (imageSize g)"
    and z: "0 \<le> vz c" "vz c < vz (imageSize g)"
    using assms by (simp_all add: in_image_def)
  have "?w \<in> set (work_groups (imageSize g))"
    unfolding in_work_groups
    using group_index_bound [OF x] group_index_bound [OF y] group_index_bound [OF z] by simp
  moreover have "c = Vec3 (4 * vx ?w + vx c mod 4) (4 * vy ?w + vy c mod 4) (4 * vz ?w + vz c mod 4)"
    by (cases c) (simp add: local_index)
  then have "c \<in> set (workgroup_invocations ?w)"
    unfolding in_workgroup_invocations
    by (intro bexI [of _ "vx c mod 4"] bexI [of _ "vy c mod 4"] bexI [of _ "vz c mod 4"])
       (simp_all add: local_index)
  ultimately show ?thesis by auto
qed

text \<open>
  C2 (amended): under any schedule of pass 2, the word of every cell of the grid becomes
  \<open>offset << 8\<close>, where \<open>offset\<close> is the 32-bit sum of the pass-1 counts of the voxels whose
  reservation precedes the cell's. The count field of the word is 0, not the pass-1 count;
  the offset field is that sum whenever the sum is below \<open>2^24\<close>; and the global counter ends
  as the sum of all counts.
\<close>

theorem offset_assignment:
  assumes sched: "pass2_schedule (imageSize grid) schedule" and c: "in_image grid c"
  shows "texels (snd (step2_pass schedule grid)) c
           = push_bit 8 (sum_list (map (imageLoad grid) (scheduled_before c (concat schedule)))) \<and>
         cell_count (texels (snd (step2_pass schedule grid)) c) = 0 \<and>
         (unat (sum_list (map (imageLoad grid) (scheduled_before c (concat schedule)))) < 2 ^ 24 \<longrightarrow>
            cell_offset (texels (snd (step2_pass schedule grid)) c)
              = unat (sum_list (map (imageLoad grid) (scheduled_before c (concat schedule))))) \<and>
         fst (step2_pass schedule grid) = sum_list (map (imageLoad grid) (concat schedule))"
proof -
  have d: "distinct (concat schedule)" using sched by (simp add: pass2_schedule_def)
  have m: "c \<in> set (concat schedule)"
    using sched in_image_dispatched [OF c] by (simp add: pass2_schedule_def)
  note F = fold_step2_group [OF d, of 0 grid]
  have t: "texels (snd (step2_pass schedule grid)) c
           = push_bit 8 (sum_list (map (imageLoad grid) (scheduled_before c (concat schedule))))"
    using F m c by (simp add: step2_pass_def)
  have f: "fst (step2_pass schedule grid) = sum_list (map (imageLoad grid) (concat schedule))"
    using F by (simp add: step2_pass_def)
  show ?thesis unfolding t f by (simp add: cell_count_push_bit cell_offset_push_bit)
qed

lemma wg2: "work_groups (Vec3 2 1 1) = [Vec3 0 0 0]"
  by (simp add: work_groups_def)

lemma distinct_wg0: "distinct (workgroup_invocations (Vec3 0 0 0))"
  by (simp add: workgroup_invocations_def upto_rec1)

lemma sched2: "pass2_schedule (Vec3 2 1 1) [rev (workgroup_invocations (Vec3 0 0 0))]"
  unfolding pass2_schedule_def wg2 by (simp add: distinct_wg0)

lemma wg0_list:
  "workgroup_invocations (Vec3 0 0 0) =
     Vec3 0 0 0 # Vec3 1 0 0 # tl (tl (workgroup_invocations (Vec3 0 0 0)))"
  by (simp add: workgroup_invocations_def upto_rec1)

lemma before_fwd0: "scheduled_before (Vec3 0 0 0) (workgroup_invocations (Vec3 0 0 0)) = []"
  by (subst wg0_list) (simp add: scheduled_before_def)

lemma before_fwd1: "scheduled_before (Vec3 1 0 0) (workgroup_invocations (Vec3 0 0 0)) = [Vec3 0 0 0]"
  by (subst wg0_list) (simp add: scheduled_before_def)

lemma sched2_fwd: "pass2_schedule (Vec3 2 1 1) [workgroup_invocations (Vec3 0 0 0)]"
  unfolding pass2_schedule_def wg2 by (simp add: distinct_wg0)

theorem offset_assignment_witness:
  "pass2_schedule (imageSize counted2) [workgroup_invocations (Vec3 0 0 0)] \<and>
   in_image counted2 (Vec3 0 0 0) \<and> in_image counted2 (Vec3 1 0 0) \<and>
   texels (snd (step2_pass [workgroup_invocations (Vec3 0 0 0)] counted2)) (Vec3 0 0 0) = 0 \<and>
   texels (snd (step2_pass [workgroup_invocations (Vec3 0 0 0)] counted2)) (Vec3 1 0 0) = 512 \<and>
   cell_offset (texels (snd (step2_pass [workgroup_invocations (Vec3 0 0 0)] counted2)) (Vec3 1 0 0)) = 2"
proof -
  have s: "pass2_schedule (imageSize counted2) [workgroup_invocations (Vec3 0 0 0)]"
    using sched2_fwd by (simp add: counted2_def)
  have i0: "in_image counted2 (Vec3 0 0 0)" and i1: "in_image counted2 (Vec3 1 0 0)"
    by (simp_all add: counted2_def in_image_def)
  have l0: "imageLoad counted2 (Vec3 0 0 0) = 2"
    by (simp add: counted2_def in_image_def imageLoad_def)
  show ?thesis
    using offset_assignment [OF s i0] offset_assignment [OF s i1] s i0 i1
    by (simp add: before_fwd0 before_fwd1 l0 cell_offset_unat)
qed

text \<open>
  C2, as stated: a cell that pass 1 counted 3 particles into has count field 0 after pass 2.
\<close>

theorem offset_assignment_counterexample:
  "cell_count (imageLoad counted2 (Vec3 1 0 0)) = 3 \<and>
   cell_count (texels (snd (step2_pass [workgroup_invocations (Vec3 0 0 0)] counted2)) (Vec3 1 0 0)) = 0"
proof -
  have l1: "imageLoad counted2 (Vec3 1 0 0) = 3"
    by (simp add: counted2_def in_image_def imageLoad_def)
  have i1: "in_image counted2 (Vec3 1 0 0)" by (simp add: counted2_def in_image_def)
  have m: "Vec3 1 0 0 \<in> set (concat [workgroup_invocations (Vec3 0 0 0)])"
    by (subst wg0_list) simp
  have d: "distinct (concat [workgroup_invocations (Vec3 0 0 0)])" by (simp add: distinct_wg0)
  have "texels (snd (step2_pass [workgroup_invocations (Vec3 0 0 0)] counted2)) (Vec3 1 0 0)
        = push_bit 8 (0 + sum_list (map (imageLoad counted2)
             (scheduled_before (Vec3 1 0 0) (concat [workgroup_invocations (Vec3 0 0 0)]))))"
    unfolding step2_pass_def using fold_step2_group [OF d, of 0 counted2] m i1 by blast
  then show ?thesis by (simp add: l1 cell_count_push_bit) (simp add: cell_count_def)
qed

section \<open>Passes 1 to 3: the counting-sort partition\<close>

lemma imageAtomicAdd_snd:
  "imageSize (snd (imageAtomicAdd g v k)) = imageSize g"
  "texels (snd (imageAtomicAdd g v k)) c = (if c = v \<and> in_image g v then texels g v + k else texels g c)"
  by (simp_all add: imageAtomicAdd_def imageLoad_def texels_imageStore)

lemma in_image_cong: "imageSize g' = imageSize g \<Longrightarrow> in_image g' c = in_image g c"
  by (simp add: in_image_def)

lemma step1_main_eq:
  "step1_main u (ps, g) i =
     (if i \<ge> length ps then (ps, g)
      else (ps [i := step1_integrate u (ps ! i)],
            if in_image g (new_voxel u (ps ! i))
            then snd (imageAtomicAdd g (new_voxel u (ps ! i)) 1) else g))"
  by (simp add: step1_main_def Let_def new_voxel_def)

lemma pass1_fold:
  assumes "distinct order"
  shows "length (fst (run_invocations (step1_main u) order (ps, g))) = length ps \<and>
         (\<forall>k. fst (run_invocations (step1_main u) order (ps, g)) ! k
                = (if k \<in> set order \<and> k < length ps then step1_integrate u (ps ! k) else ps ! k)) \<and>
         imageSize (snd (run_invocations (step1_main u) order (ps, g))) = imageSize g \<and>
         (\<forall>c. texels (snd (run_invocations (step1_main u) order (ps, g))) c
                = texels g c +
                  of_nat (length (filter (\<lambda>i. i < length ps \<and> new_voxel u (ps ! i) = c \<and> in_image g c) order)))"
  using assms
proof (induction order arbitrary: ps g)
  case Nil
  then show ?case by (simp add: run_invocations_def)
next
  case (Cons i rest)
  have ni: "i \<notin> set rest" and dr: "distinct rest" using Cons.prems by auto
  obtain ps1 g1 where st: "step1_main u (ps, g) i = (ps1, g1)" by (cases "step1_main u (ps, g) i")
  have unf: "run_invocations (step1_main u) (i # rest) (ps, g) = run_invocations (step1_main u) rest (ps1, g1)"
    by (simp add: run_invocations_def st)
  note IH = Cons.IH [OF dr, of ps1 g1]
  show ?case
  proof (cases "i < length ps")
    case False
    then have e: "ps1 = ps" "g1 = g" using st by (simp_all add: step1_main_eq)
    have f: "filter (\<lambda>j. j < length ps \<and> new_voxel u (ps ! j) = c \<and> in_image g c) (i # rest)
             = filter (\<lambda>j. j < length ps \<and> new_voxel u (ps ! j) = c \<and> in_image g c) rest" for c
      using False by simp
    show ?thesis unfolding unf f using IH False by (auto simp: e)
  next
    case True
    let ?v = "new_voxel u (ps ! i)"
    have p1: "ps1 = ps [i := step1_integrate u (ps ! i)]"
      using st True by (simp add: step1_main_eq)
    have g1: "g1 = (if in_image g ?v then snd (imageAtomicAdd g ?v 1) else g)"
      using st True by (simp add: step1_main_eq)
    have sz: "imageSize g1 = imageSize g" by (simp add: g1 imageAtomicAdd_snd)
    have inim: "in_image g1 c = in_image g c" for c by (rule in_image_cong [OF sz])
    have tx: "texels g1 c = texels g c + (if c = ?v \<and> in_image g c then 1 else 0)" for c
      by (auto simp: g1 imageAtomicAdd_snd)
    have len: "length ps1 = length ps" by (simp add: p1)
    have same: "ps1 ! j = ps ! j" if "j \<in> set rest" for j
    proof -
      have "i \<noteq> j" using that ni by auto
      then show ?thesis by (simp add: p1)
    qed
    have fr: "filter (\<lambda>j. j < length ps1 \<and> new_voxel u (ps1 ! j) = c \<and> in_image g1 c) rest
            = filter (\<lambda>j. j < length ps \<and> new_voxel u (ps ! j) = c \<and> in_image g c) rest" for c
      by (rule filter_cong) (simp_all add: len same inim)
    have A: "length (fst (run_invocations (step1_main u) rest (ps1, g1))) = length ps"
      using IH len by simp
    have B: "fst (run_invocations (step1_main u) rest (ps1, g1)) ! k
                = (if k \<in> set (i # rest) \<and> k < length ps then step1_integrate u (ps ! k) else ps ! k)" for k
    proof (cases "k = i")
      case True
      with ni have "fst (run_invocations (step1_main u) rest (ps1, g1)) ! k = ps1 ! k" using IH by simp
      then show ?thesis using True \<open>i < length ps\<close> by (simp add: p1)
    next
      case False
      have "fst (run_invocations (step1_main u) rest (ps1, g1)) ! k
            = (if k \<in> set rest \<and> k < length ps1 then step1_integrate u (ps1 ! k) else ps1 ! k)"
        using IH by blast
      then show ?thesis using False same [of k] by (auto simp: len p1)
    qed
    have C: "imageSize (snd (run_invocations (step1_main u) rest (ps1, g1))) = imageSize g"
      using IH sz by simp
    have D: "texels (snd (run_invocations (step1_main u) rest (ps1, g1))) c
                = texels g c +
                  of_nat (length (filter (\<lambda>j. j < length ps \<and> new_voxel u (ps ! j) = c \<and> in_image g c) (i # rest)))" for c
    proof -
      have "texels (snd (run_invocations (step1_main u) rest (ps1, g1))) c
            = texels g1 c + of_nat (length (filter (\<lambda>j. j < length ps1 \<and> new_voxel u (ps1 ! j) = c \<and> in_image g1 c) rest))"
        using IH by blast
      then show ?thesis unfolding fr tx using True by auto
    qed
    show ?thesis unfolding unf using A B C D by blast
  qed
qed

lemma step3_main_eq:
  "i < length inPs \<Longrightarrow>
   snd (step3_main ics org inPs (out, g) i)
     = snd (imageAtomicAdd g (voxelCoord ics org (position (inPs ! i))) 1)"
  "i \<ge> length inPs \<Longrightarrow> step3_main ics org inPs (out, g) i = (out, g)"
  by (simp_all add: step3_main_def Let_def)

lemma pass3_fold:
  "imageSize (snd (run_invocations (step3_main ics org inPs) order (out, g))) = imageSize g \<and>
   (\<forall>c. texels (snd (run_invocations (step3_main ics org inPs) order (out, g))) c
          = texels g c +
            of_nat (length (filter (\<lambda>i. i < length inPs \<and> voxelCoord ics org (position (inPs ! i)) = c
                                         \<and> in_image g c) order)))"
proof (induction order arbitrary: out g)
  case Nil
  then show ?case by (simp add: run_invocations_def)
next
  case (Cons i rest)
  obtain out1 g1 where st: "step3_main ics org inPs (out, g) i = (out1, g1)"
    by (cases "step3_main ics org inPs (out, g) i")
  have unf: "run_invocations (step3_main ics org inPs) (i # rest) (out, g)
             = run_invocations (step3_main ics org inPs) rest (out1, g1)"
    by (simp add: run_invocations_def st)
  note IH = Cons.IH [of out1 g1]
  let ?v = "voxelCoord ics org (position (inPs ! i))"
  have g1: "g1 = (if i < length inPs then snd (imageAtomicAdd g ?v 1) else g)"
    using step3_main_eq(1) [of i inPs ics org out g] step3_main_eq(2) [of inPs i ics org out g] st
    by (cases "i < length inPs") auto
  have sz: "imageSize g1 = imageSize g" by (simp add: g1 imageAtomicAdd_snd)
  have inim: "in_image g1 c = in_image g c" for c by (rule in_image_cong [OF sz])
  have tx: "texels g1 c = texels g c + (if i < length inPs \<and> c = ?v \<and> in_image g c then 1 else 0)" for c
    by (auto simp: g1 imageAtomicAdd_snd)
  have C: "imageSize (snd (run_invocations (step3_main ics org inPs) rest (out1, g1))) = imageSize g"
    using IH sz by simp
  have D: "texels (snd (run_invocations (step3_main ics org inPs) rest (out1, g1))) c
          = texels g c +
            of_nat (length (filter (\<lambda>i. i < length inPs \<and> voxelCoord ics org (position (inPs ! i)) = c
                                         \<and> in_image g c) (i # rest)))" for c
  proof -
    have "texels (snd (run_invocations (step3_main ics org inPs) rest (out1, g1))) c
          = texels g1 c +
            of_nat (length (filter (\<lambda>i. i < length inPs \<and> voxelCoord ics org (position (inPs ! i)) = c
                                         \<and> in_image g1 c) rest))"
      using IH by blast
    then show ?thesis unfolding tx inim by auto
  qed
  show ?case unfolding unf using C D by blast
qed

lemma reserved_before_Cons:
  "reserved_before f c (x # xs) = (if x = c then 0 else f x + reserved_before f c xs)"
  by (simp add: reserved_before_def scheduled_before_def)

lemma reserved_le_total:
  "c \<in> set cells \<Longrightarrow> reserved_before f c cells + f c \<le> sum_list (map f cells)"
  by (induction cells) (auto simp: reserved_before_Cons)

lemma reserved_disjoint:
  "c \<in> set cells \<Longrightarrow> c' \<in> set cells \<Longrightarrow> c \<noteq> c' \<Longrightarrow>
   reserved_before f c cells + f c \<le> reserved_before f c' cells \<or>
   reserved_before f c' cells + f c' \<le> reserved_before f c cells"
  by (induction cells) (auto simp: reserved_before_Cons)

lemma reserved_cover:
  "distinct cells \<Longrightarrow> i < sum_list (map f cells) \<Longrightarrow>
   \<exists>c \<in> set cells. reserved_before f c cells \<le> i \<and> i < reserved_before f c cells + f c"
proof (induction cells arbitrary: i)
  case Nil
  then show ?case by simp
next
  case (Cons x xs)
  show ?case
  proof (cases "i < f x")
    case True
    then show ?thesis by (auto simp: reserved_before_Cons)
  next
    case False
    then have "i - f x < sum_list (map f xs)" using Cons.prems by simp
    with Cons obtain c where c: "c \<in> set xs" "reserved_before f c xs \<le> i - f x"
      "i - f x < reserved_before f c xs + f c" by auto
    then have "c \<noteq> x" using Cons.prems by auto
    with c False show ?thesis
      by (intro bexI [of _ c]) (auto simp: reserved_before_Cons)
  qed
qed

lemma length_filter_disj:
  "(\<And>x. x \<in> set xs \<Longrightarrow> \<not> (P x \<and> Q x)) \<Longrightarrow>
   length (filter P xs) + length (filter Q xs) = length (filter (\<lambda>x. P x \<or> Q x) xs)"
  by (induction xs) auto

lemma sum_populations:
  "distinct cells \<Longrightarrow>
   sum_list (map (\<lambda>c. length (filter (\<lambda>i. h i = c) xs)) cells)
   = length (filter (\<lambda>i. h i \<in> set cells) xs)"
proof (induction cells)
  case Nil
  then show ?case by simp
next
  case (Cons x cells)
  have "length (filter (\<lambda>i. h i = x) xs) + length (filter (\<lambda>i. h i \<in> set cells) xs)
        = length (filter (\<lambda>i. h i = x \<or> h i \<in> set cells) xs)"
    using Cons.prems by (intro length_filter_disj) auto
  with Cons show ?case by simp
qed

lemma length_filter_perm:
  assumes "distinct order" "set order = {0 ..< r}" "n \<le> r"
    and "\<And>i. i < r \<Longrightarrow> P i = (i < n \<and> Q i)"
  shows "length (filter P order) = length (filter Q [0 ..< n])"
proof -
  have "length (filter P order) = card ({i. P i} \<inter> set order)"
    using assms(1) by (rule distinct_length_filter)
  also have "{i. P i} \<inter> set order = {i. Q i} \<inter> set [0 ..< n]"
    using assms(2,3,4) by auto
  also have "card \<dots> = length (filter Q [0 ..< n])"
    by (rule distinct_length_filter [symmetric]) simp
  finally show ?thesis .
qed

lemma dispatch1D_aligned:
  assumes "32 dvd unat n"
  shows "dispatch1D n = [0 ..< unat n]"
proof -
  from assms obtain k where k: "unat n = 32 * k" by (elim dvdE)
  have "unat n < 4294967296" using unsigned_less [of n] by simp
  with k have "unat n + 31 < 4294967296" by presburger
  then have "unat n + 31 < 2 ^ 32" by simp
  then have a: "unat (n + 31) = unat n + 31"
    by (simp add: unat_add_lem [THEN iffD1])
  have "unat ((n + 31) div 32) = (unat n + 31) div 32" by (simp add: unat_div a)
  moreover have "(unat n + 31) div 32 * 32 = unat n" using k by simp
  ultimately show ?thesis by (simp add: dispatch1D_def)
qed

lemma sorted_records_aligned:
  "32 dvd unat n \<Longrightarrow> unat n \<le> length particles \<Longrightarrow> sorted_records n particles = unat n"
  by (simp add: sorted_records_def dispatch1D_aligned)

lemma set_dispatch1D: "set (dispatch1D n) = {0 ..< length (dispatch1D n)}"
  by (simp add: dispatch1D_def)

lemma of_nat_sum_list_word:
  "sum_list (map (\<lambda>c. of_nat (f c)) cells) = (of_nat (sum_list (map f cells)) :: uint)"
  by (induction cells) simp_all

lemma sort_passes_word:
  assumes o1: "distinct order1" "set order1 = {0 ..< r}"
    and o3: "distinct order3" "set order3 = {0 ..< r}"
    and sch: "pass2_schedule (imageSize grid) schedule"
    and n: "n = min r (length current)"
    and inb: "\<forall>i < n. in_image grid (new_voxel u (current ! i))"
    and c: "in_image grid c"
  shows "texels (snd (snd (sort_passes u order1 schedule order3 (current, other, grid)))) c
         = push_bit 8 (of_nat (reserved_before (cell_population u current n) c (concat schedule)))
           + of_nat (cell_population u current n c)"
proof -
  let ?g0 = "clear_grid grid"
  let ?a1 = "run_invocations (step1_main u) order1 (current, ?g0)"
  let ?a2 = "step2_pass schedule (snd ?a1)"
  let ?a3 = "run_invocations (step3_main (uInvCellSize u) (uGridOrigin u) (fst ?a1)) order3 (other, snd ?a2)"
  have G: "snd (snd (sort_passes u order1 schedule order3 (current, other, grid))) = snd ?a3"
    by (simp add: sort_passes_def Let_def)
  have g0: "imageSize ?g0 = imageSize grid" "\<And>c. texels ?g0 c = 0" by (simp_all add: clear_grid_def)
  have in0: "in_image ?g0 c = in_image grid c" for c by (rule in_image_cong) (simp add: g0)
  note P1 = pass1_fold [OF o1(1), of u current ?g0]
  have len1: "length (fst ?a1) = length current" using P1 by blast
  have nth1: "fst ?a1 ! i = step1_integrate u (current ! i)" if "i < n" for i
  proof -
    have "i \<in> set order1 \<and> i < length current" using that o1(2) n by simp
    then show ?thesis using P1 by simp
  qed
  have sz1: "imageSize (snd ?a1) = imageSize grid" using P1 g0 by simp
  have in1: "in_image (snd ?a1) c = in_image grid c" for c by (rule in_image_cong [OF sz1])
  have tx1: "texels (snd ?a1) c = of_nat (cell_population u current n c)" if "in_image grid c" for c
  proof -
    have "texels (snd ?a1) c
          = texels ?g0 c + of_nat (length (filter (\<lambda>i. i < length current \<and> new_voxel u (current ! i) = c
                                                    \<and> in_image ?g0 c) order1))"
      using P1 by blast
    moreover have "length (filter (\<lambda>i. i < length current \<and> new_voxel u (current ! i) = c
                                        \<and> in_image ?g0 c) order1)
                   = length (filter (\<lambda>i. new_voxel u (current ! i) = c) [0 ..< n])"
    proof (rule length_filter_perm [OF o1])
      show "n \<le> r" using n by simp
      fix i assume "i < r"
      then show "(i < length current \<and> new_voxel u (current ! i) = c \<and> in_image ?g0 c)
                 = (i < n \<and> new_voxel u (current ! i) = c)"
        using that n by (simp add: in0)
    qed
    ultimately show ?thesis by (simp add: g0 cell_population_def)
  qed
  have pop0: "cell_population u current n c = 0" if "\<not> in_image grid c" for c
    using that inb by (auto simp: cell_population_def filter_empty_conv)
  have ld1: "imageLoad (snd ?a1) c = of_nat (cell_population u current n c)" for c
    by (cases "in_image grid c") (simp_all add: imageLoad_def in1 tx1 pop0)
  have d: "distinct (concat schedule)" using sch by (simp add: pass2_schedule_def)
  have m: "c \<in> set (concat schedule)"
    using sch in_image_dispatched [OF c] by (simp add: pass2_schedule_def)
  note F = fold_step2_group [OF d, of 0 "snd ?a1"]
  have sz2: "imageSize (snd ?a2) = imageSize grid" using F sz1 by (simp add: step2_pass_def)
  have in2: "in_image (snd ?a2) c = in_image grid c" for c by (rule in_image_cong [OF sz2])
  have "texels (snd ?a2) c
        = push_bit 8 (0 + sum_list (map (imageLoad (snd ?a1)) (scheduled_before c (concat schedule))))"
    unfolding step2_pass_def using F m c in1 by blast
  also have "map (imageLoad (snd ?a1)) (scheduled_before c (concat schedule))
             = map (\<lambda>c. of_nat (cell_population u current n c)) (scheduled_before c (concat schedule))"
    by (rule map_cong) (simp_all add: ld1)
  finally have tx2: "texels (snd ?a2) c
      = push_bit 8 (of_nat (reserved_before (cell_population u current n) c (concat schedule)))"
    by (simp add: of_nat_sum_list_word reserved_before_def)
  note P3 = pass3_fold [of "uInvCellSize u" "uGridOrigin u" "fst ?a1" order3 other "snd ?a2"]
  have "texels (snd ?a3) c
        = texels (snd ?a2) c +
          of_nat (length (filter (\<lambda>i. i < length (fst ?a1) \<and>
                     voxelCoord (uInvCellSize u) (uGridOrigin u) (position (fst ?a1 ! i)) = c \<and>
                     in_image (snd ?a2) c) order3))"
    using P3 by blast
  moreover have "length (filter (\<lambda>i. i < length (fst ?a1) \<and>
                     voxelCoord (uInvCellSize u) (uGridOrigin u) (position (fst ?a1 ! i)) = c \<and>
                     in_image (snd ?a2) c) order3)
                 = length (filter (\<lambda>i. new_voxel u (current ! i) = c) [0 ..< n])"
  proof (rule length_filter_perm [OF o3])
    show "n \<le> r" using n by simp
    fix i assume "i < r"
    show "(i < length (fst ?a1) \<and>
           voxelCoord (uInvCellSize u) (uGridOrigin u) (position (fst ?a1 ! i)) = c \<and>
           in_image (snd ?a2) c) = (i < n \<and> new_voxel u (current ! i) = c)"
    proof (cases "i < n")
      case True
      then show ?thesis using c n by (simp add: in2 len1 nth1 new_voxel_def)
    next
      case False
      with \<open>i < r\<close> n have "\<not> i < length current" by simp
      with False show ?thesis by (simp add: len1)
    qed
  qed
  ultimately show ?thesis unfolding G by (simp add: tx2 cell_population_def)
qed

lemma population_zero_outside:
  assumes "\<forall>i < n. in_image grid (new_voxel u (current ! i))" "\<not> in_image grid c"
  shows "cell_population u current n c = 0"
  using assms by (auto simp: cell_population_def filter_empty_conv)

lemma total_population:
  assumes sch: "pass2_schedule (imageSize grid) schedule"
    and inb: "\<forall>i < n. in_image grid (new_voxel u (current ! i))"
  shows "sum_list (map (cell_population u current n) (concat schedule)) = n"
proof -
  have d: "distinct (concat schedule)" using sch by (simp add: pass2_schedule_def)
  have "sum_list (map (cell_population u current n) (concat schedule))
        = length (filter (\<lambda>i. new_voxel u (current ! i) \<in> set (concat schedule)) [0 ..< n])"
    unfolding cell_population_def using d by (rule sum_populations)
  also have "filter (\<lambda>i. new_voxel u (current ! i) \<in> set (concat schedule)) [0 ..< n] = [0 ..< n]"
    unfolding filter_id_conv
    using sch inb in_image_dispatched by (auto simp: pass2_schedule_def)
  finally show ?thesis by simp
qed

text \<open>
  C1 (amended): the index space of the partition is not \<open>[0, N)\<close> for the particle count \<open>N\<close>
  but \<open>[0, M)\<close>, where \<open>M = sorted_records N current\<close> is the number of records that passes 1 and 3
  process: \<open>N\<close> rounded up to the next multiple of 32 (the size of the dispatch), and at most
  the length of the buffer. Take a substep in which \<open>M\<close> is below \<open>2\<^sup>2\<^sup>4\<close>, each of these \<open>M\<close>
  records lands in a voxel of the grid, and no voxel receives more than 255 of them. Then,
  whatever the order of the invocations, after pass 3 every cell word has
  \<open>offset + count \<le> M\<close> with \<open>count\<close> the number of records of that cell, the ranges
  \<open>[offset, offset + count)\<close> of two different cells do not overlap, and every index below \<open>M\<close>
  lies in the range of some cell. When \<open>N\<close> is a multiple of 32 within the buffer, \<open>M = N\<close>.
\<close>

theorem counting_sort_partition:
  assumes o1: "distinct order1 \<and> set order1 = set (dispatch1D n)"
    and o3: "distinct order3 \<and> set order3 = set (dispatch1D n)"
    and sch: "pass2_schedule (imageSize grid) schedule"
    and small: "sorted_records n current < 2 ^ 24"
    and inb: "\<forall>i < sorted_records n current. in_image grid (new_voxel u (current ! i))"
    and few: "\<forall>c. in_image grid c \<longrightarrow> cell_population u current (sorted_records n current) c \<le> 255"
  shows "(\<forall>c. in_image grid c \<longrightarrow>
            cell_offset (texels (sorted_grid u order1 schedule order3 current other grid) c)
            + cell_count (texels (sorted_grid u order1 schedule order3 current other grid) c) \<le> sorted_records n current \<and>
            cell_count (texels (sorted_grid u order1 schedule order3 current other grid) c)
            = cell_population u current (sorted_records n current) c) \<and>
         (\<forall>c c'. in_image grid c \<and> in_image grid c' \<and> c \<noteq> c' \<longrightarrow>
            cell_offset (texels (sorted_grid u order1 schedule order3 current other grid) c)
            + cell_count (texels (sorted_grid u order1 schedule order3 current other grid) c)
              \<le> cell_offset (texels (sorted_grid u order1 schedule order3 current other grid) c') \<or>
            cell_offset (texels (sorted_grid u order1 schedule order3 current other grid) c')
            + cell_count (texels (sorted_grid u order1 schedule order3 current other grid) c')
              \<le> cell_offset (texels (sorted_grid u order1 schedule order3 current other grid) c)) \<and>
         (\<forall>i < sorted_records n current. \<exists>c. in_image grid c \<and>
            cell_offset (texels (sorted_grid u order1 schedule order3 current other grid) c) \<le> i \<and>
            i < cell_offset (texels (sorted_grid u order1 schedule order3 current other grid) c)
                + cell_count (texels (sorted_grid u order1 schedule order3 current other grid) c)) \<and>
         (32 dvd unat n \<and> unat n \<le> length current \<longrightarrow> sorted_records n current = unat n)"
proof -
  let ?N = "sorted_records n current"
  let ?L = "concat schedule"
  let ?f = "cell_population u current ?N"
  let ?G = "sorted_grid u order1 schedule order3 current other grid"
  have o1': "distinct order1" "set order1 = {0 ..< length (dispatch1D n)}"
    using o1 set_dispatch1D by simp_all
  have o3': "distinct order3" "set order3 = {0 ..< length (dispatch1D n)}"
    using o3 set_dispatch1D by simp_all
  have N: "?N = min (length (dispatch1D n)) (length current)" by (simp add: sorted_records_def)
  have d: "distinct ?L" using sch by (simp add: pass2_schedule_def)
  have mem: "c \<in> set ?L" if "in_image grid c" for c
    using sch in_image_dispatched [OF that] by (simp add: pass2_schedule_def)
  have total: "sum_list (map ?f ?L) = ?N" using sch inb by (rule total_population)
  have word: "texels ?G c = push_bit 8 (of_nat (reserved_before ?f c ?L)) + of_nat (?f c)"
    if "in_image grid c" for c
    unfolding sorted_grid_def using o1' o3' sch N inb that by (rule sort_passes_word)
  have le: "reserved_before ?f c ?L + ?f c \<le> ?N" if "in_image grid c" for c
    using reserved_le_total [OF mem [OF that], of ?f] total by simp
  have off: "cell_offset (texels ?G c) = reserved_before ?f c ?L"
    and cnt: "cell_count (texels ?G c) = ?f c" if "in_image grid c" for c
  proof -
    have s: "reserved_before ?f c ?L < 2 ^ 24" using le [OF that] small by simp
    have "?f c \<le> 255" using few that by blast
    then have k: "?f c < 256" by simp
    show "cell_offset (texels ?G c) = reserved_before ?f c ?L"
      unfolding word [OF that] using s k by (rule cell_fields(1))
    show "cell_count (texels ?G c) = ?f c"
      unfolding word [OF that] using s k by (rule cell_fields(2))
  qed
  have A: "\<forall>c. in_image grid c \<longrightarrow>
              cell_offset (texels ?G c) + cell_count (texels ?G c) \<le> ?N \<and>
              cell_count (texels ?G c) = ?f c"
  proof (intro allI impI)
    fix c assume i: "in_image grid c"
    show "cell_offset (texels ?G c) + cell_count (texels ?G c) \<le> ?N \<and>
          cell_count (texels ?G c) = ?f c"
      unfolding off [OF i] cnt [OF i] using le [OF i] by simp
  qed
  have B: "\<forall>c c'. in_image grid c \<and> in_image grid c' \<and> c \<noteq> c' \<longrightarrow>
              cell_offset (texels ?G c) + cell_count (texels ?G c) \<le> cell_offset (texels ?G c') \<or>
              cell_offset (texels ?G c') + cell_count (texels ?G c') \<le> cell_offset (texels ?G c)"
  proof (intro allI impI)
    fix c c' assume h: "in_image grid c \<and> in_image grid c' \<and> c \<noteq> c'"
    then have i: "in_image grid c" and i': "in_image grid c'" and ne: "c \<noteq> c'" by simp_all
    show "cell_offset (texels ?G c) + cell_count (texels ?G c) \<le> cell_offset (texels ?G c') \<or>
          cell_offset (texels ?G c') + cell_count (texels ?G c') \<le> cell_offset (texels ?G c)"
      unfolding off [OF i] cnt [OF i] off [OF i'] cnt [OF i']
      by (rule reserved_disjoint [OF mem [OF i] mem [OF i'] ne])
  qed
  have C: "\<forall>i < ?N. \<exists>c. in_image grid c \<and> cell_offset (texels ?G c) \<le> i \<and>
               i < cell_offset (texels ?G c) + cell_count (texels ?G c)"
  proof (intro allI impI)
    fix i assume "i < ?N"
    with total have "i < sum_list (map ?f ?L)" by simp
    from reserved_cover [OF d this] obtain c where
      c: "c \<in> set ?L" "reserved_before ?f c ?L \<le> i" "i < reserved_before ?f c ?L + ?f c" by blast
    then have nz: "?f c \<noteq> 0" by simp
    have i: "in_image grid c"
    proof (rule ccontr)
      assume "\<not> in_image grid c"
      from population_zero_outside [OF inb this] nz show False by simp
    qed
    have "in_image grid c \<and> cell_offset (texels ?G c) \<le> i \<and>
          i < cell_offset (texels ?G c) + cell_count (texels ?G c)"
      unfolding off [OF i] cnt [OF i] using c i by simp
    then show "\<exists>c. in_image grid c \<and> cell_offset (texels ?G c) \<le> i \<and>
               i < cell_offset (texels ?G c) + cell_count (texels ?G c)" ..
  qed
  have D: "32 dvd unat n \<and> unat n \<le> length current \<longrightarrow> ?N = unat n"
    by (simp add: sorted_records_aligned)
  from A B C D show ?thesis by (intro conjI)
qed

lemma voxel_left: "new_voxel tank left_particle = Vec3 0 0 0"
  by (simp add: new_voxel_def tank_def left_particle_def at_rest_def step1_integrate_def
        step1_newPos_def step1_newVelo_def wall_axis_def boundsL_def boundsH_def vadds_def
        SAFE_BOUNDS_def plus_gvec3_def minus_gvec3_def vscale_def vmul_def voxelCoord_def
        to_ivec3_def trunc_def DT_def Let_def)

lemma voxel_right: "new_voxel tank right_particle = Vec3 1 0 0"
  by (simp add: new_voxel_def tank_def right_particle_def at_rest_def step1_integrate_def
        step1_newPos_def step1_newVelo_def wall_axis_def boundsL_def boundsH_def vadds_def
        SAFE_BOUNDS_def plus_gvec3_def minus_gvec3_def vscale_def vmul_def voxelCoord_def
        to_ivec3_def trunc_def DT_def Let_def)

lemma nth_half: "i < 32 \<Longrightarrow> half_and_half ! i = (if i < 16 then left_particle else right_particle)"
  by (simp add: half_and_half_def nth_append)

lemma voxel_half: "i < 32 \<Longrightarrow> new_voxel tank (half_and_half ! i) = (if i < 16 then Vec3 0 0 0 else Vec3 1 0 0)"
  by (simp add: nth_half voxel_left voxel_right)

lemma population_half:
  "cell_population tank half_and_half 32 (Vec3 0 0 0) = 16"
  "cell_population tank half_and_half 32 (Vec3 1 0 0) = 16"
proof -
  have u: "[0 ..< 32] = [0 ..< 16] @ [16 ..< 32]" by (simp add: upt_add_eq_append [of 0 16 16, simplified])
  have "filter (\<lambda>i. new_voxel tank (half_and_half ! i) = Vec3 0 0 0) [0 ..< 32]
        = filter (\<lambda>i. i < 16) [0 ..< 32]"
    by (rule filter_cong) (simp_all add: voxel_half)
  also have "\<dots> = [0 ..< 16]" unfolding u by simp
  finally show "cell_population tank half_and_half 32 (Vec3 0 0 0) = 16"
    by (simp add: cell_population_def)
  have "filter (\<lambda>i. new_voxel tank (half_and_half ! i) = Vec3 1 0 0) [0 ..< 32]
        = filter (\<lambda>i. \<not> i < 16) [0 ..< 32]"
    by (rule filter_cong) (simp_all add: voxel_half)
  also have "\<dots> = [16 ..< 32]" unfolding u by simp
  finally show "cell_population tank half_and_half 32 (Vec3 1 0 0) = 16"
    by (simp add: cell_population_def)
qed

lemma dispatch_examples:
  "dispatch1D 1 = [0 ..< 32]" "dispatch1D 20 = [0 ..< 32]" "dispatch1D 32 = [0 ..< 32]"
  "dispatch1D 256 = [0 ..< 256]"
  by (simp_all add: dispatch1D_def)

lemma sorted_records_examples:
  "sorted_records 1 half_and_half = 32" "sorted_records 20 half_and_half = 32"
  "sorted_records 32 half_and_half = 32" "sorted_records 256 crowd = 256"
  by (simp_all add: sorted_records_def dispatch_examples half_and_half_def crowd_def)

text \<open>
  A buffer of 32 records, 16 in each of the two cells, with the particle count 20 (not a
  multiple of 32) and with the particle count 32.
\<close>

theorem counting_sort_partition_witness:
  "sorted_records 20 half_and_half = 32 \<and>
   cell_count (texels (sorted_grid tank (rev [0 ..< 32]) [workgroup_invocations (Vec3 0 0 0)] [0 ..< 32]
                          half_and_half (replicate 32 zero_particle) tank_grid) (Vec3 0 0 0)) = 16 \<and>
   cell_offset (texels (sorted_grid tank (rev [0 ..< 32]) [workgroup_invocations (Vec3 0 0 0)] [0 ..< 32]
                          half_and_half (replicate 32 zero_particle) tank_grid) (Vec3 0 0 0)) + 16 \<le> 32 \<and>
   32 dvd unat (32 :: uint) \<and> unat (32 :: uint) \<le> length half_and_half \<and>
   sorted_records 32 half_and_half = unat (32 :: uint)"
proof -
  have o1: "distinct (rev [0 ..< 32]) \<and> set (rev [0 ..< 32]) = set (dispatch1D 20)"
    by (simp add: dispatch_examples)
  have o3: "distinct [0 ..< 32] \<and> set [0 ..< 32] = set (dispatch1D 20)"
    by (simp add: dispatch_examples)
  have o1': "distinct (rev [0 ..< 32]) \<and> set (rev [0 ..< 32]) = set (dispatch1D 32)"
    by (simp add: dispatch_examples)
  have o3': "distinct [0 ..< 32] \<and> set [0 ..< 32] = set (dispatch1D 32)"
    by (simp add: dispatch_examples)
  have sch: "pass2_schedule (imageSize tank_grid) [workgroup_invocations (Vec3 0 0 0)]"
    using sched2_fwd by (simp add: tank_grid_def)
  have small: "sorted_records 20 half_and_half < 2 ^ 24" "sorted_records 32 half_and_half < 2 ^ 24"
    by (simp_all add: sorted_records_examples)
  have inb: "\<forall>i < sorted_records 20 half_and_half. in_image tank_grid (new_voxel tank (half_and_half ! i))"
    "\<forall>i < sorted_records 32 half_and_half. in_image tank_grid (new_voxel tank (half_and_half ! i))"
    by (simp_all add: sorted_records_examples voxel_half in_image_def tank_grid_def)
  have few: "\<forall>c. in_image tank_grid c \<longrightarrow> cell_population tank half_and_half 32 c \<le> 255"
  proof (intro allI impI)
    fix c
    have "cell_population tank half_and_half 32 c \<le> length [0 ..< (32::nat)]"
      unfolding cell_population_def by (rule length_filter_le)
    then show "cell_population tank half_and_half 32 c \<le> 255" by simp
  qed
  then have few': "\<forall>c. in_image tank_grid c \<longrightarrow>
      cell_population tank half_and_half (sorted_records 20 half_and_half) c \<le> 255"
    "\<forall>c. in_image tank_grid c \<longrightarrow>
      cell_population tank half_and_half (sorted_records 32 half_and_half) c \<le> 255"
    by (simp_all only: sorted_records_examples)
  have i0: "in_image tank_grid (Vec3 0 0 0)" by (simp add: in_image_def tank_grid_def)
  from counting_sort_partition [OF o1 o3 sch small(1) inb(1) few'(1), of "replicate 32 zero_particle"]
  have "cell_offset (texels (sorted_grid tank (rev [0 ..< 32]) [workgroup_invocations (Vec3 0 0 0)] [0 ..< 32]
                          half_and_half (replicate 32 zero_particle) tank_grid) (Vec3 0 0 0))
        + cell_count (texels (sorted_grid tank (rev [0 ..< 32]) [workgroup_invocations (Vec3 0 0 0)] [0 ..< 32]
                          half_and_half (replicate 32 zero_particle) tank_grid) (Vec3 0 0 0))
          \<le> sorted_records 20 half_and_half \<and>
        cell_count (texels (sorted_grid tank (rev [0 ..< 32]) [workgroup_invocations (Vec3 0 0 0)] [0 ..< 32]
                          half_and_half (replicate 32 zero_particle) tank_grid) (Vec3 0 0 0))
          = cell_population tank half_and_half (sorted_records 20 half_and_half) (Vec3 0 0 0)"
    using i0 by blast
  then have A: "cell_count (texels (sorted_grid tank (rev [0 ..< 32]) [workgroup_invocations (Vec3 0 0 0)] [0 ..< 32]
                          half_and_half (replicate 32 zero_particle) tank_grid) (Vec3 0 0 0)) = 16 \<and>
       cell_offset (texels (sorted_grid tank (rev [0 ..< 32]) [workgroup_invocations (Vec3 0 0 0)] [0 ..< 32]
                          half_and_half (replicate 32 zero_particle) tank_grid) (Vec3 0 0 0)) + 16 \<le> 32"
    by (simp add: sorted_records_examples population_half)
  have al: "32 dvd unat (32 :: uint) \<and> unat (32 :: uint) \<le> length half_and_half"
    by (simp add: half_and_half_def)
  from counting_sort_partition [OF o1' o3' sch small(2) inb(2) few'(2), of "replicate 32 zero_particle"] al
  have B: "sorted_records 32 half_and_half = unat (32 :: uint)" by blast
  from A B al show ?thesis by (simp add: sorted_records_examples)
qed

lemma population_crowd:
  "cell_population tank crowd 256 (Vec3 0 0 0) = 256"
  "cell_population tank crowd 256 (Vec3 1 0 0) = 0"
proof -
  have v: "new_voxel tank (crowd ! i) = Vec3 0 0 0" if "i < 256" for i
    using that by (simp add: crowd_def voxel_left)
  have "filter (\<lambda>i. new_voxel tank (crowd ! i) = Vec3 0 0 0) [0 ..< 256] = [0 ..< 256]"
    unfolding filter_id_conv using v by simp
  then show "cell_population tank crowd 256 (Vec3 0 0 0) = 256" by (simp add: cell_population_def)
  have "filter (\<lambda>i. new_voxel tank (crowd ! i) = Vec3 1 0 0) [0 ..< 256] = []"
    unfolding filter_empty_conv using v by simp
  then show "cell_population tank crowd 256 (Vec3 1 0 0) = 0" by (simp add: cell_population_def)
qed

lemma crowd_words:
  "texels (sorted_grid tank [0 ..< 256] [workgroup_invocations (Vec3 0 0 0)] [0 ..< 256]
             crowd (replicate 256 zero_particle) tank_grid) (Vec3 0 0 0) = 256"
  "texels (sorted_grid tank [0 ..< 256] [workgroup_invocations (Vec3 0 0 0)] [0 ..< 256]
             crowd (replicate 256 zero_particle) tank_grid) (Vec3 1 0 0) = 65536"
proof -
  have o: "distinct [0 ..< 256]" "set [0 ..< 256] = {0 ..< 256}" by simp_all
  have sch: "pass2_schedule (imageSize tank_grid) [workgroup_invocations (Vec3 0 0 0)]"
    using sched2_fwd by (simp add: tank_grid_def)
  have n: "256 = min 256 (length crowd)" by (simp add: crowd_def)
  have inb: "\<forall>i < 256. in_image tank_grid (new_voxel tank (crowd ! i))"
    by (simp add: crowd_def voxel_left in_image_def tank_grid_def)
  have i0: "in_image tank_grid (Vec3 0 0 0)" and i1: "in_image tank_grid (Vec3 1 0 0)"
    by (simp_all add: in_image_def tank_grid_def)
  have r0: "reserved_before (cell_population tank crowd 256) (Vec3 0 0 0)
              (concat [workgroup_invocations (Vec3 0 0 0)]) = 0"
    by (simp add: reserved_before_def before_fwd0)
  have r1: "reserved_before (cell_population tank crowd 256) (Vec3 1 0 0)
              (concat [workgroup_invocations (Vec3 0 0 0)]) = 256"
    by (simp add: reserved_before_def before_fwd1 population_crowd)
  show "texels (sorted_grid tank [0 ..< 256] [workgroup_invocations (Vec3 0 0 0)] [0 ..< 256]
                  crowd (replicate 256 zero_particle) tank_grid) (Vec3 0 0 0) = 256"
    unfolding sorted_grid_def sort_passes_word [OF o o sch n inb i0] r0 population_crowd by simp
  show "texels (sorted_grid tank [0 ..< 256] [workgroup_invocations (Vec3 0 0 0)] [0 ..< 256]
                  crowd (replicate 256 zero_particle) tank_grid) (Vec3 1 0 0) = 65536"
    unfolding sorted_grid_def sort_passes_word [OF o o sch n inb i1] r1 population_crowd by simp
qed

lemma half_words:
  "texels (sorted_grid tank [0 ..< 32] [workgroup_invocations (Vec3 0 0 0)] [0 ..< 32]
             half_and_half (replicate 32 zero_particle) tank_grid) (Vec3 0 0 0) = 16"
  "texels (sorted_grid tank [0 ..< 32] [workgroup_invocations (Vec3 0 0 0)] [0 ..< 32]
             half_and_half (replicate 32 zero_particle) tank_grid) (Vec3 1 0 0) = 4112"
proof -
  have o: "distinct [0 ..< 32]" "set [0 ..< 32] = {0 ..< 32}" by simp_all
  have sch: "pass2_schedule (imageSize tank_grid) [workgroup_invocations (Vec3 0 0 0)]"
    using sched2_fwd by (simp add: tank_grid_def)
  have n: "32 = min 32 (length half_and_half)" by (simp add: half_and_half_def)
  have inb: "\<forall>i < 32. in_image tank_grid (new_voxel tank (half_and_half ! i))"
    by (simp add: voxel_half in_image_def tank_grid_def)
  have i0: "in_image tank_grid (Vec3 0 0 0)" and i1: "in_image tank_grid (Vec3 1 0 0)"
    by (simp_all add: in_image_def tank_grid_def)
  have r0: "reserved_before (cell_population tank half_and_half 32) (Vec3 0 0 0)
              (concat [workgroup_invocations (Vec3 0 0 0)]) = 0"
    by (simp add: reserved_before_def before_fwd0)
  have r1: "reserved_before (cell_population tank half_and_half 32) (Vec3 1 0 0)
              (concat [workgroup_invocations (Vec3 0 0 0)]) = 16"
    by (simp add: reserved_before_def before_fwd1 population_half)
  show "texels (sorted_grid tank [0 ..< 32] [workgroup_invocations (Vec3 0 0 0)] [0 ..< 32]
                  half_and_half (replicate 32 zero_particle) tank_grid) (Vec3 0 0 0) = 16"
    unfolding sorted_grid_def sort_passes_word [OF o o sch n inb i0] r0 population_half by simp
  show "texels (sorted_grid tank [0 ..< 32] [workgroup_invocations (Vec3 0 0 0)] [0 ..< 32]
                  half_and_half (replicate 32 zero_particle) tank_grid) (Vec3 1 0 0) = 4112"
    unfolding sorted_grid_def sort_passes_word [OF o o sch n inb i1] r1 population_half by simp
qed

text \<open>
  C1, as stated, fails in two ways. With 256 particles in one cell of a two-cell grid, the
  8-bit count field carries into the offset field: after pass 3 the two cells hold
  (offset 1, count 0) and (offset 256, count 0), both ranges are empty and no index below 256
  is covered. With the particle count 1 in a buffer of 32 records, the dispatch of 32
  invocations counts and scatters all 32 records, 16 into each cell: after pass 3 the cells
  hold (offset 0, count 16) and (offset 16, count 16), and \<open>offset + count\<close> is 16 and 32,
  above the particle count.
\<close>

theorem counting_sort_overflow_counterexample:
  "imageSize tank_grid = Vec3 2 1 1 \<and> length crowd = 256 \<and> dispatch1D 256 = [0 ..< 256] \<and>
   cell_offset (texels (sorted_grid tank [0 ..< 256] [workgroup_invocations (Vec3 0 0 0)] [0 ..< 256]
                          crowd (replicate 256 zero_particle) tank_grid) (Vec3 0 0 0)) = 1 \<and>
   cell_count (texels (sorted_grid tank [0 ..< 256] [workgroup_invocations (Vec3 0 0 0)] [0 ..< 256]
                          crowd (replicate 256 zero_particle) tank_grid) (Vec3 0 0 0)) = 0 \<and>
   cell_offset (texels (sorted_grid tank [0 ..< 256] [workgroup_invocations (Vec3 0 0 0)] [0 ..< 256]
                          crowd (replicate 256 zero_particle) tank_grid) (Vec3 1 0 0)) = 256 \<and>
   cell_count (texels (sorted_grid tank [0 ..< 256] [workgroup_invocations (Vec3 0 0 0)] [0 ..< 256]
                          crowd (replicate 256 zero_particle) tank_grid) (Vec3 1 0 0)) = 0 \<and>
   length half_and_half = 32 \<and> dispatch1D 1 = [0 ..< 32] \<and>
   cell_offset (texels (sorted_grid tank [0 ..< 32] [workgroup_invocations (Vec3 0 0 0)] [0 ..< 32]
                          half_and_half (replicate 32 zero_particle) tank_grid) (Vec3 0 0 0)) = 0 \<and>
   cell_count (texels (sorted_grid tank [0 ..< 32] [workgroup_invocations (Vec3 0 0 0)] [0 ..< 32]
                          half_and_half (replicate 32 zero_particle) tank_grid) (Vec3 0 0 0)) = 16 \<and>
   cell_offset (texels (sorted_grid tank [0 ..< 32] [workgroup_invocations (Vec3 0 0 0)] [0 ..< 32]
                          half_and_half (replicate 32 zero_particle) tank_grid) (Vec3 1 0 0)) = 16 \<and>
   cell_count (texels (sorted_grid tank [0 ..< 32] [workgroup_invocations (Vec3 0 0 0)] [0 ..< 32]
                          half_and_half (replicate 32 zero_particle) tank_grid) (Vec3 1 0 0)) = 16"
  unfolding crowd_words half_words
  by (simp add: cell_offset_unat cell_count_unat tank_grid_def crowd_def half_and_half_def
        dispatch_examples)

section \<open>Integrated particles land in the grid\<close>

lemma wall_axis_range:
  assumes "lo \<le> hi"
  shows "lo \<le> snd (wall_axis lo hi vp) \<and> snd (wall_axis lo hi vp) \<le> hi"
  using assms by (cases vp) (auto simp: wall_axis_def Let_def)

lemma axis_in_grid:
  fixes s p orig :: real and r :: int
  assumes s: "1 \<le> s" and r: "1 \<le> r" and lo: "orig + 0.5 \<le> p" and hi: "p \<le> orig + s - 0.5"
  shows "0 \<le> trunc (real_of_int r * (1.0 - 0.001) / s * (p - orig)) \<and>
         trunc (real_of_int r * (1.0 - 0.001) / s * (p - orig)) < r"
proof -
  let ?q = "real_of_int r * (1.0 - 0.001) / s * (p - orig)"
  have d0: "0 \<le> p - orig" and d1: "p - orig \<le> s" using lo hi by simp_all
  have k0: "0 \<le> real_of_int r * (1.0 - 0.001) / s" using s r by simp
  have q0: "0 \<le> ?q" using k0 d0 by (rule mult_nonneg_nonneg)
  have "?q \<le> real_of_int r * (1.0 - 0.001) / s * s" using k0 d1 by (rule mult_left_mono [rotated])
  also have "\<dots> = real_of_int r * (1.0 - 0.001)" using s by simp
  also have "\<dots> < real_of_int r" using r by simp
  finally have q1: "?q < real_of_int r" .
  have t: "trunc ?q = \<lfloor>?q\<rfloor>" using q0 by (simp add: trunc_def)
  show ?thesis unfolding t using q0 q1 by (simp add: floor_less_iff)
qed

text \<open>
  With \<open>uInvCellSize\<close> as \<open>runSimulationPass\<close> computes it, a box at least 1 wide along each
  axis and at least one cell along each axis, the walls keep every integrated particle inside
  the grid: the premise of the partition theorem on the voxels holds for every buffer.
\<close>

lemma integrated_particle_in_grid:
  assumes inv: "uInvCellSize u = host_invCellSize (imageSize grid) (uGridSize u)"
    and size: "1 \<le> vx (uGridSize u)" "1 \<le> vy (uGridSize u)" "1 \<le> vz (uGridSize u)"
    and res: "1 \<le> vx (imageSize grid)" "1 \<le> vy (imageSize grid)" "1 \<le> vz (imageSize grid)"
  shows "in_image grid (new_voxel u particle)"
proof -
  let ?p = "position (step1_integrate u particle)"
  have bl: "vx (boundsL u) = vx (uGridOrigin u) + 0.5" "vy (boundsL u) = vy (uGridOrigin u) + 0.5"
    "vz (boundsL u) = vz (uGridOrigin u) + 0.5"
    by (simp_all add: boundsL_def vadds_def SAFE_BOUNDS_def)
  have bh: "vx (boundsH u) = vx (uGridOrigin u) + vx (uGridSize u) - 0.5"
    "vy (boundsH u) = vy (uGridOrigin u) + vy (uGridSize u) - 0.5"
    "vz (boundsH u) = vz (uGridOrigin u) + vz (uGridSize u) - 0.5"
    by (simp_all add: boundsH_def vadds_def SAFE_BOUNDS_def plus_gvec3_def)
  have px: "vx (uGridOrigin u) + 0.5 \<le> vx ?p \<and> vx ?p \<le> vx (uGridOrigin u) + vx (uGridSize u) - 0.5"
    using wall_axis_range [of "vx (boundsL u)" "vx (boundsH u)"] size(1)
    by (simp add: step1_integrate_def Let_def bl bh)
  have py: "vy (uGridOrigin u) + 0.5 \<le> vy ?p \<and> vy ?p \<le> vy (uGridOrigin u) + vy (uGridSize u) - 0.5"
    using wall_axis_range [of "vy (boundsL u)" "vy (boundsH u)"] size(2)
    by (simp add: step1_integrate_def Let_def bl bh)
  have pz: "vz (uGridOrigin u) + 0.5 \<le> vz ?p \<and> vz ?p \<le> vz (uGridOrigin u) + vz (uGridSize u) - 0.5"
    using wall_axis_range [of "vz (boundsL u)" "vz (boundsH u)"] size(3)
    by (simp add: step1_integrate_def Let_def bl bh)
  have v: "new_voxel u particle =
        Vec3 (trunc (real_of_int (vx (imageSize grid)) * (1.0 - 0.001) / vx (uGridSize u) * (vx ?p - vx (uGridOrigin u))))
             (trunc (real_of_int (vy (imageSize grid)) * (1.0 - 0.001) / vy (uGridSize u) * (vy ?p - vy (uGridOrigin u))))
             (trunc (real_of_int (vz (imageSize grid)) * (1.0 - 0.001) / vz (uGridSize u) * (vz ?p - vz (uGridOrigin u))))"
    by (simp add: new_voxel_def voxelCoord_def inv host_invCellSize_def to_ivec3_def vmul_def minus_gvec3_def)
  show ?thesis
    unfolding v in_image_def gvec3.sel
    using axis_in_grid [OF size(1) res(1) px [THEN conjunct1] px [THEN conjunct2]]
          axis_in_grid [OF size(2) res(2) py [THEN conjunct1] py [THEN conjunct2]]
          axis_in_grid [OF size(3) res(3) pz [THEN conjunct1] pz [THEN conjunct2]]
    by blast
qed

section \<open>Density pass: an isolated particle\<close>
































end
